theory Spec2Isabelle
  imports Main "HOL-Library.Sublist"
begin

section \<open>Text primitives of the JavaScript runtime\<close>

text \<open>
  Text is a \<^typ>\<open>string\<close>: a sequence of 8-bit characters, read as the UTF-8 bytes of the
  JavaScript string. Case mapping and the character classes of the regular expressions
  are modelled on the ASCII range; bytes from 128 on are neither letters nor white space.
\<close>

definition newline :: char where
  "newline = CHR 0x0A"

definition isWhitespace :: "char \<Rightarrow> bool" where
  \<comment> \<open>the class \<open>\s\<close> and what \<open>trim\<close> removes: tab, LF, VT, FF, CR, space\<close>
  "isWhitespace c = (let n = (of_char c :: nat) in (9 \<le> n \<and> n \<le> 13) \<or> n = 32)"

definition isLineTerminator :: "char \<Rightarrow> bool" where
  \<comment> \<open>what \<open>.\<close> does not match: LF and CR\<close>
  "isLineTerminator c = (let n = (of_char c :: nat) in n = 10 \<or> n = 13)"

definition lowerChar :: "char \<Rightarrow> char" where
  "lowerChar c = (let n = (of_char c :: nat) in if 65 \<le> n \<and> n \<le> 90 then char_of (n + 32) else c)"

definition toLowerCase :: "string \<Rightarrow> string" where
  "toLowerCase s = map lowerChar s"

definition trim :: "string \<Rightarrow> string" where
  "trim s = rev (dropWhile isWhitespace (rev (dropWhile isWhitespace s)))"

text \<open>\<open>s.split(c)\<close> for a one-character separator: always at least one piece.\<close>

fun split_on :: "char \<Rightarrow> string \<Rightarrow> string list" where
  "split_on c [] = [[]]"
| "split_on c (x # xs) =
     (if x = c then [] # split_on c xs
      else (case split_on c xs of
              [] \<Rightarrow> [[x]]
            | p # ps \<Rightarrow> (x # p) # ps))"

text \<open>\<open>parts.join(sep)\<close>.\<close>

fun join :: "string \<Rightarrow> string list \<Rightarrow> string" where
  "join sep [] = []"
| "join sep [x] = x"
| "join sep (x # y # ys) = x @ sep @ join sep (y # ys)"

text \<open>\<open>s.includes(q)\<close>: \<open>q\<close> occurs in \<open>s\<close> as a contiguous run.\<close>

fun str_includes :: "string \<Rightarrow> string \<Rightarrow> bool" where
  "str_includes [] q = (q = [])"
| "str_includes (x # xs) q = (prefix q (x # xs) \<or> str_includes xs q)"

text \<open>\<open>s.endsWith(q)\<close>.\<close>

definition endsWith :: "string \<Rightarrow> string \<Rightarrow> bool" where
  "endsWith s q = suffix q s"

text \<open>\<open>xs.slice(start, end)\<close> for \<open>0 \<le> start\<close> and \<open>0 \<le> end\<close>.\<close>

definition slice :: "'a list \<Rightarrow> nat \<Rightarrow> nat \<Rightarrow> 'a list" where
  "slice xs start end' = take (end' - start) (drop start xs)"

section \<open>Objects used as dictionaries\<close>

text \<open>
  The registry, the section mapping and the histogram are plain objects (\<open>{}\<close>, or what
  \<open>JSON.parse\<close> returns) indexed by strings. Their own properties are a map. Reading
  \<open>obj[key]\<close> finds an own property first and otherwise what every such object inherits
  from \<open>Object.prototype\<close>: the members listed here, all of them truthy.
\<close>

definition objectPrototypeKeys :: "string list" where
  "objectPrototypeKeys =
     [''constructor'', ''__defineGetter__'', ''__defineSetter__'', ''hasOwnProperty'',
      ''__lookupGetter__'', ''__lookupSetter__'', ''isPrototypeOf'', ''propertyIsEnumerable'',
      ''toString'', ''valueOf'', ''__proto__'', ''toLocaleString'']"

datatype 'v property = Own 'v | Inherited | Missing

definition getProperty :: "(string \<rightharpoonup> 'v) \<Rightarrow> string \<Rightarrow> 'v property" where
  "getProperty obj key =
     (case obj key of
        Some v \<Rightarrow> Own v
      | None \<Rightarrow> if key \<in> set objectPrototypeKeys then Inherited else Missing)"

text \<open>
  The assignment \<open>obj[key] = v\<close> of a string: it makes an own property, except under the key
  \<open>__proto__\<close>, where it reaches the inherited setter, which ignores a value that is not an
  object.
\<close>

definition setProperty :: "(string \<rightharpoonup> string) \<Rightarrow> string \<Rightarrow> string \<Rightarrow> (string \<rightharpoonup> string)" where
  "setProperty obj key v = (if key = ''__proto__'' then obj else obj(key \<mapsto> v))"

text \<open>
  An inherited member inside a template string: \<open>Object.prototype\<close> itself under
  \<open>__proto__\<close>, the function \<open>Object\<close> under \<open>constructor\<close>, and a built-in function of the
  same name under every other key. The member's \<open>name\<close> property is absent for the first.
\<close>

definition inheritedText :: "string \<Rightarrow> string" where
  "inheritedText key =
     (if key = ''__proto__'' then ''[object Object]''
      else if key = ''constructor'' then ''function Object() { [native code] }''
      else ''function '' @ key @ ''() { [native code] }'')"

definition inheritedName :: "string \<Rightarrow> string" where
  "inheritedName key =
     (if key = ''__proto__'' then ''undefined''
      else if key = ''constructor'' then ''Object''
      else key)"

section \<open>Markdown sections (docTools.ts)\<close>

text \<open>
  \<open>line.match(/^(#{1,6})\s+(.+)$/)\<close>, returning the two groups. The hashes are one to six
  and are followed by white space. The greedy \<open>\s+\<close> takes the whole white-space run when
  text follows it; when the run reaches the end of the line, the matcher backtracks by one
  character, so that the second group is the last white-space character. The dot matches
  no line terminator, and \<open>$\<close> is the end of the line (there is no \<open>m\<close> flag).
\<close>

definition headerMatch :: "string \<Rightarrow> (string \<times> string) option" where
  "headerMatch line =
     (let hashes = takeWhile (\<lambda>c. c = CHR ''#'') line;
          afterHashes = dropWhile (\<lambda>c. c = CHR ''#'') line;
          spaces = takeWhile isWhitespace afterHashes;
          rest = dropWhile isWhitespace afterHashes
      in if length hashes < 1 \<or> 6 < length hashes \<or> spaces = [] then None
         else if rest \<noteq> [] then
           (if list_ex isLineTerminator rest then None else Some (hashes, rest))
         else if 2 \<le> length spaces \<and> \<not> isLineTerminator (last spaces)
           then Some (hashes, [last spaces])
         else None)"

record extract_state =
  sections :: "string \<rightharpoonup> string"
  currentSectionName :: string
  sectionContent :: "string list"

text \<open>
  The guarded store of \<open>extractMarkdownSections\<close>:
  \<open>if (currentSectionName && sectionContent.length > 0) sections[...] = ...\<close>.
\<close>

definition saveSection :: "extract_state \<Rightarrow> extract_state" where
  "saveSection st =
     (if currentSectionName st \<noteq> [] \<and> sectionContent st \<noteq> []
      then st\<lparr>sections := setProperty (sections st)
             (toLowerCase (currentSectionName st)) (join [newline] (sectionContent st))\<rparr>
      else st)"

text \<open>One turn of the loop over the lines.\<close>

definition extractStep :: "extract_state \<Rightarrow> string \<Rightarrow> extract_state" where
  "extractStep st line =
     (case headerMatch line of
        Some (hashes, text) \<Rightarrow>
          (saveSection st)\<lparr>currentSectionName := trim text, sectionContent := [line]\<rparr>
      | None \<Rightarrow> st\<lparr>sectionContent := sectionContent st @ [line]\<rparr>)"

definition extractMarkdownSections :: "string \<Rightarrow> (string \<rightharpoonup> string)" where
  "extractMarkdownSections content =
     sections (saveSection (foldl extractStep
       \<lparr>sections = Map.empty, currentSectionName = [], sectionContent = []\<rparr>
       (split_on newline content)))"

record header =
  level :: nat
  title :: string
  anchor :: string

text \<open>\<open>s.replace(/\s+/g, "-")\<close>: every maximal white-space run becomes one hyphen.\<close>

function hyphenate :: "string \<Rightarrow> string" where
  "hyphenate [] = []"
| "hyphenate (c # cs) =
     (if isWhitespace c then CHR ''-'' # hyphenate (dropWhile isWhitespace cs)
      else c # hyphenate cs)"
  by pat_completeness auto
termination
  by (relation "measure length") (auto simp: length_dropWhile_le less_Suc_eq_le)

definition isAnchorChar :: "char \<Rightarrow> bool" where
  \<comment> \<open>the characters \<open>replace(/[^a-z0-9\s-]/g, "")\<close> keeps\<close>
  "isAnchorChar c =
     (let n = (of_char c :: nat)
      in (97 \<le> n \<and> n \<le> 122) \<or> (48 \<le> n \<and> n \<le> 57) \<or> isWhitespace c \<or> c = CHR ''-'')"

definition makeAnchor :: "string \<Rightarrow> string" where
  "makeAnchor t = hyphenate (filter isAnchorChar (toLowerCase t))"

definition findSectionHeaders :: "string \<Rightarrow> header list" where
  "findSectionHeaders content =
     List.map_filter
       (\<lambda>line. case headerMatch line of
                 None \<Rightarrow> None
               | Some (hashes, text) \<Rightarrow>
                   Some \<lparr>level = length hashes, title = trim text,
                         anchor = makeAnchor (trim text)\<rparr>)
       (split_on newline content)"

text \<open>The key under which a heading line is stored: its trimmed text, lower-cased.\<close>

definition headingKey :: "string \<Rightarrow> string option" where
  "headingKey line =
     (case headerMatch line of
        None \<Rightarrow> None
      | Some (hashes, text) \<Rightarrow> Some (toLowerCase (trim text)))"

section \<open>Numbers as text\<close>

definition digitChar :: "nat \<Rightarrow> char" where
  "digitChar d = char_of (48 + d)"

text \<open>The decimal rendering of a natural number inside a template string.\<close>

function show_nat :: "nat \<Rightarrow> string" where
  "show_nat n = (if n < 10 then [digitChar n] else show_nat (n div 10) @ [digitChar (n mod 10)])"
  by pat_completeness auto
termination
  by (relation "measure id") auto

declare show_nat.simps [simp del]

definition digitValue :: "nat \<Rightarrow> char \<Rightarrow> nat option" where
  "digitValue radix c =
     (let n = (of_char c :: nat);
          v = (if 48 \<le> n \<and> n \<le> 57 then n - 48
               else if 97 \<le> n \<and> n \<le> 122 then n - 87
               else if 65 \<le> n \<and> n \<le> 90 then n - 55
               else 36)
      in if v < radix then Some v else None)"

text \<open>
  \<open>parseInt(s)\<close> with no radix: leading white space, a sign, a hexadecimal prefix, then the
  longest run of digits; \<open>None\<close> is \<open>NaN\<close>.
\<close>

definition parseInt :: "string \<Rightarrow> int option" where
  "parseInt s =
     (let s1 = dropWhile isWhitespace s;
          negative = (s1 \<noteq> [] \<and> hd s1 = CHR ''-'');
          s2 = (if s1 \<noteq> [] \<and> (hd s1 = CHR ''-'' \<or> hd s1 = CHR ''+'') then tl s1 else s1);
          hex = (prefix ''0x'' s2 \<or> prefix ''0X'' s2);
          radix = (if hex then 16 else 10);
          s3 = (if hex then drop 2 s2 else s2);
          ds = List.map_filter (digitValue radix) (takeWhile (\<lambda>c. digitValue radix c \<noteq> None) s3);
          v = foldl (\<lambda>a d. a * int radix + int d) (0 :: int) ds
      in if ds = [] then None else Some (if negative then - v else v))"

section \<open>The remote content gateway (shared.ts)\<close>

record dir_entry =
  entry_name :: string
  entry_type :: string

record file_object =
  file_type :: string
  file_encoding :: string
  file_content :: string
  file_size :: nat

text \<open>
  What \<open>response.json()\<close> yields: a directory listing (a JSON array), a file object, or
  a failure to parse with its message.
\<close>

datatype json_body = Listing "dir_entry list" | FileObject file_object | Unparseable string

record http_response =
  status :: nat
  statusText :: string
  response_headers :: "string \<rightharpoonup> string"
  body :: json_body

datatype fetch_outcome = NetworkFailure string | Response http_response

record docs_config =
  docs_repo :: string
  docs_branch :: string
  docs_paths :: "string list"

record RepoConfig =
  name :: string
  description :: string
  github :: string
  repo :: string
  mainBranch :: string
  srcPaths :: "string list"
  examplePaths :: "string list"
  docs :: "docs_config option"

text \<open>
  The registry document \<open>repodata.json\<close> as \<open>JSON.parse\<close> returns it: the own properties
  of one object, each a \<open>RepoConfig\<close>, in the order \<open>Object.keys\<close> lists them.
\<close>

type_synonym registry = "(string \<times> RepoConfig) list"

text \<open>
  Everything outside the process that the tools read or write: the API key of
  \<open>config.json\<close> (empty when the file cannot be read), the remote API as a function of
  the request, the clock rendering of the host's locale, the registry document (\<open>None\<close>
  when it cannot be read or parsed), the documents written to it so far, and the local
  documentation tree (library and relative path to content).
\<close>

record world =
  config_apiKey :: string
  http :: "string \<Rightarrow> (string \<times> string) list \<Rightarrow> fetch_outcome"
  toLocaleTimeString :: "int \<Rightarrow> string"
  repodata_json :: "registry option"
  written :: "registry list"
  localDocs :: "string \<Rightarrow> string \<Rightarrow> string option"

definition loadRepoData :: "world \<Rightarrow> registry" where
  "loadRepoData w = (case repodata_json w of None \<Rightarrow> [] | Some r \<Rightarrow> r)"

text \<open>A nullable string inside a template string: \<open>null\<close> prints as the word.\<close>

definition showNullable :: "string option \<Rightarrow> string" where
  "showNullable v = (case v of None \<Rightarrow> ''null'' | Some s \<Rightarrow> s)"

text \<open>
  \<open>resetTime ? new Date(parseInt(resetTime) * 1000).toLocaleTimeString() : "unknown"\<close>.
  A date is valid up to 8.64e15 milliseconds either side of the epoch.
\<close>

definition resetDate :: "world \<Rightarrow> string option \<Rightarrow> string" where
  "resetDate w resetTime =
     (case resetTime of
        None \<Rightarrow> ''unknown''
      | Some t \<Rightarrow>
          if t = [] then ''unknown''
          else (case parseInt t of
                  None \<Rightarrow> ''Invalid Date''
                | Some n \<Rightarrow>
                    if \<bar>n * 1000\<bar> \<le> 8640000000000000 then toLocaleTimeString w (n * 1000)
                    else ''Invalid Date''))"

definition rateLimitMessage :: "world \<Rightarrow> http_response \<Rightarrow> string" where
  "rateLimitMessage w r =
     (let remaining = response_headers r ''X-RateLimit-Remaining'';
          resetTime = response_headers r ''X-RateLimit-Reset''
      in ''GitHub API rate limit exceeded. Remaining: '' @ showNullable remaining
         @ ''. Resets at: '' @ resetDate w resetTime @ ''. ''
         @ (if config_apiKey w \<noteq> [] then ''Authenticated''
            else ''Consider adding a GitHub API key to config.json for higher rate limits''))"

text \<open>
  The body of the \<open>try\<close> in \<open>fetchGitHubContent\<close>: \<open>Inl\<close> carries the message of the error
  thrown inside it.
\<close>

definition fetchAttempt :: "world \<Rightarrow> string \<Rightarrow> string \<Rightarrow> string \<Rightarrow> string + json_body" where
  "fetchAttempt w repo' path branch =
     (let url = ''https://api.github.com/repos/'' @ repo' @ ''/contents/'' @ path
                @ ''?ref='' @ branch;
          requestHeaders =
            [(''Accept'', ''application/vnd.github.v3+json''),
             (''User-Agent'', ''MCP-Docs-Server/1.0.0'')]
            @ (if config_apiKey w \<noteq> [] then [(''Authorization'', ''token '' @ config_apiKey w)]
               else [])
      in case http w url requestHeaders of
           NetworkFailure msg \<Rightarrow> Inl msg
         | Response r \<Rightarrow>
             if \<not> (200 \<le> status r \<and> status r \<le> 299) then
               (if status r = 403 then Inl (rateLimitMessage w r)
                else Inl (''GitHub API error: '' @ show_nat (status r) @ '' '' @ statusText r))
             else (case body r of
                     Unparseable msg \<Rightarrow> Inl msg
                   | Listing items \<Rightarrow> Inr (Listing items)
                   | FileObject f \<Rightarrow> Inr (FileObject f)))"

text \<open>The \<open>catch\<close> around it rethrows every error under one prefix.\<close>

definition fetchGitHubContent :: "world \<Rightarrow> string \<Rightarrow> string \<Rightarrow> string \<Rightarrow> string + json_body" where
  "fetchGitHubContent w repo' path branch =
     (case fetchAttempt w repo' path branch of
        Inl msg \<Rightarrow> Inl (''Failed to fetch from GitHub: '' @ msg)
      | Inr v \<Rightarrow> Inr v)"

definition itemPathOf :: "string \<Rightarrow> string \<Rightarrow> string" where
  \<comment> \<open>\<open>path ? `${path}/${item.name}` : item.name\<close>\<close>
  "itemPathOf path nm = (if path \<noteq> [] then path @ ''/'' @ nm else nm)"

function findFilesRecursively ::
  "world \<Rightarrow> string \<Rightarrow> string \<Rightarrow> string \<Rightarrow> (string \<Rightarrow> string \<Rightarrow> bool) \<Rightarrow> int \<Rightarrow> string list" where
  "findFilesRecursively w repo' path branch fileFilter maxDepth =
     (if maxDepth \<le> 0 then []
      else (case fetchGitHubContent w repo' path branch of
              Inl err \<Rightarrow> []
            | Inr contents \<Rightarrow>
                (case contents of
                   Listing items \<Rightarrow>
                     concat (map (\<lambda>item.
                       let itemPath = itemPathOf path (entry_name item)
                       in if entry_type item = ''file'' \<and> fileFilter (entry_name item) itemPath
                            then [itemPath]
                          else if entry_type item = ''dir'' \<and> maxDepth > 1
                            then findFilesRecursively w repo' itemPath branch fileFilter
                                   (maxDepth - 1)
                          else []) items)
                 | FileObject f \<Rightarrow> []
                 | Unparseable msg \<Rightarrow> [])))"
  by pat_completeness auto
termination
  by (relation "measure (\<lambda>(w, repo', path, branch, fileFilter, maxDepth). nat maxDepth)") auto

declare findFilesRecursively.simps [simp del]

section \<open>Decoding file bodies (shared.ts)\<close>

text \<open>
  \<open>decodeGitHubContent\<close> is \<open>Buffer.from(content, "base64").toString("utf-8")\<close>. Both calls
  belong to the Node.js runtime; they are modelled as the runtime documents them. A buffer
  is a list of bytes, each a natural number below 256.

  \<open>Buffer.from(_, "base64")\<close> never throws. It accepts the standard and the URL-safe
  alphabet, skips every other character (white space included), stops at the first
  \<open>=\<close>, and turns each full group of four sextets into three bytes; two or three left-over
  sextets give one or two bytes, a single one gives none.
\<close>

definition unbase64 :: "char \<Rightarrow> nat option" where
  "unbase64 c =
     (let n = (of_char c :: nat)
      in if 65 \<le> n \<and> n \<le> 90 then Some (n - 65)
         else if 97 \<le> n \<and> n \<le> 122 then Some (n - 71)
         else if 48 \<le> n \<and> n \<le> 57 then Some (n + 4)
         else if c = CHR ''+'' \<or> c = CHR ''-'' then Some 62
         else if c = CHR ''/'' \<or> c = CHR ''_'' then Some 63
         else None)"

fun decodeSextets :: "nat list \<Rightarrow> nat list" where
  "decodeSextets (a # b # c # d # rest) =
     (a * 4 + b div 16) mod 256 # ((b mod 16) * 16 + c div 4) mod 256
       # ((c mod 4) * 64 + d) mod 256 # decodeSextets rest"
| "decodeSextets [a, b, c] = [(a * 4 + b div 16) mod 256, ((b mod 16) * 16 + c div 4) mod 256]"
| "decodeSextets [a, b] = [(a * 4 + b div 16) mod 256]"
| "decodeSextets [a] = []"
| "decodeSextets [] = []"

definition bufferFromBase64 :: "string \<Rightarrow> nat list" where
  "bufferFromBase64 s =
     decodeSextets (List.map_filter unbase64 (takeWhile (\<lambda>c. c \<noteq> CHR ''='') s))"

text \<open>
  \<open>buf.toString("utf-8")\<close> never throws either: it decodes well-formed sequences and puts
  U+FFFD (the bytes EF BF BD in this model's text) for every maximal ill-formed part,
  then goes on with the byte that did not fit.
\<close>

definition replacement :: "nat list" where
  "replacement = [0xEF, 0xBF, 0xBD]"

definition isContinuation :: "nat \<Rightarrow> bool" where
  "isContinuation b = (0x80 \<le> b \<and> b \<le> 0xBF)"

text \<open>The range of the byte after a lead byte: narrower after E0, ED, F0 and F4.\<close>

definition secondByteOk :: "nat \<Rightarrow> nat \<Rightarrow> bool" where
  "secondByteOk lead b =
     ((if lead = 0xE0 then 0xA0 else if lead = 0xF0 then 0x90 else 0x80) \<le> b \<and>
      b \<le> (if lead = 0xED then 0x9F else if lead = 0xF4 then 0x8F else 0xBF))"

fun utf8ToString :: "nat list \<Rightarrow> nat list" where
  "utf8ToString [] = []"
| "utf8ToString (b # bs) =
     (if b < 0x80 then b # utf8ToString bs
      else if 0xC2 \<le> b \<and> b \<le> 0xDF then
        (case bs of
           [] \<Rightarrow> replacement
         | c1 # r1 \<Rightarrow>
             if isContinuation c1 then b # c1 # utf8ToString r1
             else replacement @ utf8ToString bs)
      else if 0xE0 \<le> b \<and> b \<le> 0xEF then
        (case bs of
           [] \<Rightarrow> replacement
         | c1 # r1 \<Rightarrow>
             if secondByteOk b c1 then
               (case r1 of
                  [] \<Rightarrow> replacement
                | c2 # r2 \<Rightarrow>
                    if isContinuation c2 then b # c1 # c2 # utf8ToString r2
                    else replacement @ utf8ToString r1)
             else replacement @ utf8ToString bs)
      else if 0xF0 \<le> b \<and> b \<le> 0xF4 then
        (case bs of
           [] \<Rightarrow> replacement
         | c1 # r1 \<Rightarrow>
             if secondByteOk b c1 then
               (case r1 of
                  [] \<Rightarrow> replacement
                | c2 # r2 \<Rightarrow>
                    if isContinuation c2 then
                      (case r2 of
                         [] \<Rightarrow> replacement
                       | c3 # r3 \<Rightarrow>
                           if isContinuation c3 then b # c1 # c2 # c3 # utf8ToString r3
                           else replacement @ utf8ToString r2)
                    else replacement @ utf8ToString r1)
             else replacement @ utf8ToString bs)
      else replacement @ utf8ToString bs)"

definition decodeGitHubContent :: "string \<Rightarrow> string" where
  "decodeGitHubContent content = map char_of (utf8ToString (bufferFromBase64 content))"

text \<open>
  Modelled from the spec: \<open>base64Encode\<close> and the notions of valid base64 and of UTF-8 text,
  which the repository leaves to the remote API. The encoder is RFC 4648 with padding; valid
  base64 is what it can produce; UTF-8 text is the encoding of a sequence of Unicode scalar
  values.
\<close>

definition base64Char :: "nat \<Rightarrow> char" where
  "base64Char n =
     (if n < 26 then char_of (65 + n)
      else if n < 52 then char_of (71 + n)
      else if n < 62 then char_of (n - 4)
      else if n = 62 then CHR ''+'' else CHR ''/'')"

fun encodeBytes :: "nat list \<Rightarrow> string" where
  "encodeBytes (a # b # c # rest) =
     base64Char (a div 4) # base64Char ((a mod 4) * 16 + b div 16)
       # base64Char ((b mod 16) * 4 + c div 64) # base64Char (c mod 64) # encodeBytes rest"
| "encodeBytes [a, b] =
     [base64Char (a div 4), base64Char ((a mod 4) * 16 + b div 16),
      base64Char ((b mod 16) * 4), CHR ''='']"
| "encodeBytes [a] = [base64Char (a div 4), base64Char ((a mod 4) * 16), CHR ''='', CHR ''='']"
| "encodeBytes [] = []"

definition base64Encode :: "string \<Rightarrow> string" where
  "base64Encode text = encodeBytes (map of_char text)"

definition isStandardBase64Char :: "char \<Rightarrow> bool" where
  "isStandardBase64Char c = (unbase64 c \<noteq> None \<and> c \<noteq> CHR ''-'' \<and> c \<noteq> CHR ''_'')"

definition validBase64 :: "string \<Rightarrow> bool" where
  "validBase64 s =
     (length s mod 4 = 0 \<and>
      (let payload = takeWhile (\<lambda>c. c \<noteq> CHR ''='') s;
           padding = dropWhile (\<lambda>c. c \<noteq> CHR ''='') s
       in list_all isStandardBase64Char payload \<and> list_all (\<lambda>c. c = CHR ''='') padding
          \<and> length padding \<le> 2))"

definition isScalarValue :: "nat \<Rightarrow> bool" where
  "isScalarValue c = (c < 0xD800 \<or> (0xE000 \<le> c \<and> c < 0x110000))"

definition utf8EncodeCodePoint :: "nat \<Rightarrow> nat list" where
  "utf8EncodeCodePoint c =
     (if c < 0x80 then [c]
      else if c < 0x800 then [0xC0 + c div 64, 0x80 + c mod 64]
      else if c < 0x10000 then [0xE0 + c div 4096, 0x80 + (c div 64) mod 64, 0x80 + c mod 64]
      else [0xF0 + c div 262144, 0x80 + (c div 4096) mod 64, 0x80 + (c div 64) mod 64,
            0x80 + c mod 64])"

definition utf8Text :: "nat list \<Rightarrow> string" where
  "utf8Text codePoints = map char_of (concat (map utf8EncodeCodePoint codePoints))"

text \<open>
  The notions in which the decoding of an arbitrary input is stated, also modelled from the
  documents and not from the decoder. The bytes of a text are the encodings of its scalar
  values. A base64 character is a character of the alphabet of RFC 4648 or one of the two
  that the URL-safe alphabet puts in the place of \<open>+\<close> and \<open>/\<close>. An input carries a sequence
  of bytes when its base64 characters before the first \<open>=\<close> are the encoding of the bytes,
  padding apart: other characters may stand anywhere among them, and anything may follow
  the first \<open>=\<close>.
\<close>

definition utf8Bytes :: "nat list \<Rightarrow> nat list" where
  "utf8Bytes codePoints = concat (map utf8EncodeCodePoint codePoints)"

definition unpadded :: "string \<Rightarrow> string" where
  "unpadded s = takeWhile (\<lambda>c. c \<noteq> CHR ''='') s"

definition isBase64Char :: "char \<Rightarrow> bool" where
  "isBase64Char c = (c \<in> set (map base64Char [0..<64]) \<or> c = CHR ''-'' \<or> c = CHR ''_'')"

definition carries :: "string \<Rightarrow> nat list \<Rightarrow> bool" where
  "carries s bytes =
     (list_all (\<lambda>b. b < 256) bytes \<and>
      filter isBase64Char (unpadded s) = unpadded (encodeBytes bytes))"

definition urlSafeToStandard :: "char \<Rightarrow> char" where
  "urlSafeToStandard c = (if c = CHR ''-'' then CHR ''+'' else if c = CHR ''_'' then CHR ''/'' else c)"

text \<open>
  The outcome of the operation the spec calls \<open>decodeFileBody\<close>, with the failure the spec
  names. The source has no failing path: every input takes the right-hand side.
\<close>

datatype decode_error = DecodeError

definition decodeFileBody :: "string \<Rightarrow> decode_error + string" where
  "decodeFileBody base64Content = Inr (decodeGitHubContent base64Content)"

section \<open>File classification (shared.ts)\<close>

definition sourceExtensions :: "string list" where
  "sourceExtensions =
     [''.ts'', ''.tsx'', ''.js'', ''.jsx'', ''.mjs'', ''.cjs'', ''.py'', ''.rs'', ''.go'',
      ''.java'', ''.cpp'', ''.c'', ''.h'', ''.vue'', ''.svelte'', ''.astro'', ''.md'', ''.mdx'',
      ''.json'']"

definition isSourceFile :: "string \<Rightarrow> bool" where
  "isSourceFile filename = list_ex (\<lambda>ext. endsWith (toLowerCase filename) ext) sourceExtensions"

definition exampleExtensions :: "string list" where
  "exampleExtensions =
     [''.ts'', ''.tsx'', ''.js'', ''.jsx'', ''.mjs'', ''.cjs'', ''.vue'', ''.svelte'', ''.astro'',
      ''.md'', ''.mdx'']"

definition isExampleFile :: "string \<Rightarrow> string \<Rightarrow> bool" where
  "isExampleFile filename filePath =
     (let hasExampleExtension =
            list_ex (\<lambda>ext. endsWith (toLowerCase filename) ext) exampleExtensions;
          pathLower = toLowerCase filePath;
          isInExampleDir = (str_includes pathLower ''example'' \<or> str_includes pathLower ''demo''
            \<or> str_includes pathLower ''sandbox'' \<or> str_includes pathLower ''test'')
      in hasExampleExtension \<and> isInExampleDir)"

section \<open>Keyword search (docTools.ts, repoTools.ts, exampleTools.ts)\<close>

text \<open>
  The window around a matching line:
  \<open>start = Math.max(0, index - r)\<close>, \<open>end = Math.min(lines.length - 1, index + r)\<close>,
  \<open>lines.slice(start, end + 1)\<close>. The three searches differ in \<open>r\<close>.
\<close>

definition contextLines :: "int \<Rightarrow> string list \<Rightarrow> nat \<Rightarrow> string list" where
  "contextLines r lines index =
     (let start = max 0 (int index - r);
          end' = min (int (length lines) - 1) (int index + r)
      in slice lines (nat start) (nat (end' + 1)))"

definition lineMatches :: "string \<Rightarrow> string \<Rightarrow> bool" where
  \<comment> \<open>\<open>line.toLowerCase().includes(query.toLowerCase())\<close>\<close>
  "lineMatches line query = str_includes (toLowerCase line) (toLowerCase query)"

text \<open>The \<open>lines.forEach\<close> of \<open>searchDocumentation\<close> (docTools.ts).\<close>

definition searchDocumentationMatches :: "string \<Rightarrow> string \<Rightarrow> string list" where
  "searchDocumentationMatches content query =
     (let lines = split_on newline content
      in [''Line '' @ show_nat (index + 1) @ '': '' @ join [newline] (contextLines 1 lines index).
          index \<leftarrow> [0..<length lines], lineMatches (lines ! index) query])"

text \<open>The \<open>lines.forEach\<close> of \<open>search-source\<close> (repoTools.ts).\<close>

definition searchSourceMatches :: "string \<Rightarrow> string \<Rightarrow> string list" where
  "searchSourceMatches fileContent query =
     (let lines = split_on newline fileContent
      in [''Line '' @ show_nat (index + 1) @ '': '' @ join [newline] (contextLines 1 lines index).
          index \<leftarrow> [0..<length lines], lineMatches (lines ! index) query])"

text \<open>
  The search of one file in \<open>searchRepoExamples\<close> (exampleTools.ts): the whole content is
  tested first, then the lines, with two lines of context either side.
\<close>

definition searchExampleMatches :: "string \<Rightarrow> string \<Rightarrow> string list" where
  "searchExampleMatches fileContent query =
     (if str_includes (toLowerCase fileContent) (toLowerCase query) then
        (let lines = split_on newline fileContent
         in [''Line '' @ show_nat (index + 1) @ '':'' @ [newline]
               @ join [newline] (contextLines 2 lines index).
             index \<leftarrow> [0..<length lines], lineMatches (lines ! index) query])
      else [])"

text \<open>One turn of the loop over the candidate files of \<open>search-source\<close>: what it pushes.\<close>

definition searchSourceFile ::
  "world \<Rightarrow> RepoConfig \<Rightarrow> string \<Rightarrow> string \<Rightarrow> (string \<times> string list) list" where
  "searchSourceFile w config query file =
     (case fetchGitHubContent w (repo config) file (mainBranch config) of
        Inl err \<Rightarrow> []
      | Inr content \<Rightarrow>
          (case content of
             FileObject f \<Rightarrow>
               if file_type f = ''file'' \<and> file_encoding f = ''base64'' then
                 (let matches = searchSourceMatches (decodeGitHubContent (file_content f)) query
                  in if matches \<noteq> [] then [(file, take 5 matches)] else [])
               else []
           | Listing items \<Rightarrow> []
           | Unparseable msg \<Rightarrow> []))"

text \<open>\<open>files.slice(0, 20)\<close> for one search path: the files fetched and searched for it.\<close>

definition sourceCandidates :: "world \<Rightarrow> RepoConfig \<Rightarrow> string \<Rightarrow> string list" where
  "sourceCandidates w config searchPath =
     take 20 (findFilesRecursively w (repo config) searchPath (mainBranch config)
                (\<lambda>filename filePath. isSourceFile filename) 3)"

definition searchPathsOf :: "RepoConfig \<Rightarrow> string list option \<Rightarrow> string list" where
  \<comment> \<open>\<open>paths || config.srcPaths\<close>: an array, even an empty one, is truthy\<close>
  "searchPathsOf config paths = (case paths of None \<Rightarrow> srcPaths config | Some ps \<Rightarrow> ps)"

text \<open>All files one call of \<open>search-source\<close> fetches and searches, in order.\<close>

definition searchSourceVisited :: "world \<Rightarrow> RepoConfig \<Rightarrow> string list option \<Rightarrow> string list" where
  "searchSourceVisited w config paths =
     concat (map (sourceCandidates w config) (searchPathsOf config paths))"

text \<open>The \<open>results\<close> array of \<open>search-source\<close>.\<close>

definition searchSourceResults ::
  "world \<Rightarrow> RepoConfig \<Rightarrow> string \<Rightarrow> string list option \<Rightarrow> (string \<times> string list) list" where
  "searchSourceResults w config query paths =
     concat (map (\<lambda>searchPath.
       concat (map (searchSourceFile w config query) (sourceCandidates w config searchPath)))
       (searchPathsOf config paths))"

text \<open>The same for \<open>searchRepoExamples\<close>: depth 2, fifteen files, three matches.\<close>

definition searchExampleFile ::
  "world \<Rightarrow> string \<Rightarrow> string \<Rightarrow> string \<Rightarrow> string \<Rightarrow> (string \<times> string list) list" where
  "searchExampleFile w repo' branch query file =
     (case fetchGitHubContent w repo' file branch of
        Inl err \<Rightarrow> []
      | Inr content \<Rightarrow>
          (case content of
             FileObject f \<Rightarrow>
               if file_type f = ''file'' \<and> file_encoding f = ''base64'' then
                 (let matches = searchExampleMatches (decodeGitHubContent (file_content f)) query
                  in if matches \<noteq> [] then [(file, take 3 matches)] else [])
               else []
           | Listing items \<Rightarrow> []
           | Unparseable msg \<Rightarrow> []))"

definition exampleCandidates :: "world \<Rightarrow> string \<Rightarrow> string \<Rightarrow> string \<Rightarrow> string list" where
  "exampleCandidates w repo' branch examplePath =
     take 15 (findFilesRecursively w repo' examplePath branch
                (\<lambda>filename filePath. isExampleFile filename filePath) 2)"

definition searchRepoExamplesVisited ::
  "world \<Rightarrow> string \<Rightarrow> string \<Rightarrow> string list \<Rightarrow> string list" where
  "searchRepoExamplesVisited w repo' branch paths =
     concat (map (exampleCandidates w repo' branch) paths)"

definition searchRepoExamples ::
  "world \<Rightarrow> string \<Rightarrow> string \<Rightarrow> string list \<Rightarrow> string \<Rightarrow> (string \<times> string list) list" where
  "searchRepoExamples w repo' branch paths query =
     concat (map (\<lambda>examplePath.
       concat (map (searchExampleFile w repo' branch query)
                 (exampleCandidates w repo' branch examplePath)))
       paths)"

section \<open>Browsing a repository (repoTools.ts)\<close>

definition folderIcon :: string where
  "folderIcon = [CHR 0xF0, CHR 0x9F, CHR 0x93, CHR 0x81]"

definition pageIcon :: string where
  "pageIcon = [CHR 0xF0, CHR 0x9F, CHR 0x93, CHR 0x84]"

definition apostrophe :: string where
  "apostrophe = [CHR 0x27]"

text \<open>
  The part of \<open>browse-repo\<close> after the lookup of the library: the fetch and the payload. The
  three strings are \<open>config.name\<close>, \<open>config.github\<close> and \<open>config.mainBranch\<close> as the payload
  prints them.
\<close>

definition browseFetched ::
  "string \<Rightarrow> string \<Rightarrow> string \<Rightarrow> string \<Rightarrow> string \<Rightarrow> string + json_body \<Rightarrow> string" where
  "browseFetched library requestedPath shownName shownGithub shownBranch fetched =
     (case fetched of
        Inl message \<Rightarrow> ''Error browsing repository: '' @ message
      | Inr contents \<Rightarrow>
          (case contents of
             Listing entries \<Rightarrow>
               (let items = map (\<lambda>item.
                      (if entry_type item = ''dir'' then folderIcon else pageIcon)
                        @ '' '' @ entry_name item
                        @ (if entry_type item = ''dir'' then ''/'' else [])) entries;
                    pathDisplay = (if requestedPath \<noteq> [] then ''/'' @ requestedPath
                                   else ''/'')
                in ''# '' @ shownName @ '' Repository Structure'' @ [newline, newline]
                     @ ''**Path:** '' @ pathDisplay @ [newline]
                     @ ''**Repository:** '' @ shownGithub @ [newline]
                     @ ''**Branch:** '' @ shownBranch @ [newline, newline]
                     @ ''## Contents:'' @ [newline, newline] @ join [newline] items)
           | FileObject f \<Rightarrow>
               ''Path '' @ apostrophe @ requestedPath @ apostrophe
                 @ '' is not a directory or does not exist in '' @ library
           | Unparseable msg \<Rightarrow>
               ''Path '' @ apostrophe @ requestedPath @ apostrophe
                 @ '' is not a directory or does not exist in '' @ library))"

text \<open>
  The text payload of \<open>browse-repo\<close>; an absent \<open>path\<close> is the empty string. A library name
  that the registry object only inherits passes the test \<open>!config\<close>: its fields \<open>repo\<close>,
  \<open>github\<close> and \<open>mainBranch\<close> are \<open>undefined\<close>, which prints as the word and lets the branch
  of the fetch default to \<open>main\<close>.
\<close>

definition browseRepo :: "world \<Rightarrow> string \<Rightarrow> string option \<Rightarrow> string" where
  "browseRepo w library path =
     (let requestedPath = (case path of None \<Rightarrow> [] | Some p \<Rightarrow> p);
          repoData = loadRepoData w
      in case getProperty (map_of repoData) library of
           Missing \<Rightarrow>
             ''Repository '' @ apostrophe @ library @ apostrophe
               @ '' not found. Available repositories: '' @ join '', '' (map fst repoData)
         | Own config \<Rightarrow>
             browseFetched library requestedPath (name config) (github config)
               (mainBranch config)
               (fetchGitHubContent w (repo config) requestedPath (mainBranch config))
         | Inherited \<Rightarrow>
             browseFetched library requestedPath (inheritedName library) ''undefined''
               ''undefined'' (fetchGitHubContent w ''undefined'' requestedPath ''main''))"

section \<open>Reading a documentation file (docTools.ts)\<close>

text \<open>
  \<open>getDocumentationContent\<close>: the remote docs source first when the library has one (any
  failure there is logged and passed over), then the local file. An inherited member has no
  \<open>docs\<close>.
\<close>

definition getDocumentationContent :: "world \<Rightarrow> string \<Rightarrow> string \<Rightarrow> string + string" where
  "getDocumentationContent w library filePath =
     (let remote =
            (case getProperty (map_of (loadRepoData w)) library of
               Missing \<Rightarrow> None
             | Inherited \<Rightarrow> None
             | Own repoConfig \<Rightarrow>
                 (case docs repoConfig of
                    None \<Rightarrow> None
                  | Some d \<Rightarrow>
                      (case fetchGitHubContent w (docs_repo d) filePath (docs_branch d) of
                         Inl err \<Rightarrow> None
                       | Inr fileContent \<Rightarrow>
                           (case fileContent of
                              FileObject f \<Rightarrow>
                                if file_content f \<noteq> []
                                then Some (decodeGitHubContent (file_content f)) else None
                            | Listing items \<Rightarrow> None
                            | Unparseable msg \<Rightarrow> None))))
      in case remote of
           Some text \<Rightarrow> Inr text
         | None \<Rightarrow>
             (case localDocs w library filePath of
                Some text \<Rightarrow> Inr text
              | None \<Rightarrow> Inl (''Documentation file not found: '' @ filePath)))"

definition bullet :: string where
  \<comment> \<open>the bullet as docTools.ts spells it\<close>
  "bullet = [CHR 0xC3, CHR 0xA2, CHR 0xE2, CHR 0x82, CHR 0xAC, CHR 0xC2, CHR 0xA2]"

text \<open>The reply of \<open>get-doc\<close> when the section is not found: the list of the anchors.\<close>

definition sectionNotFound :: "string \<Rightarrow> string \<Rightarrow> string \<Rightarrow> string \<Rightarrow> string" where
  "sectionNotFound library filePath sectionAnchor content =
     (let headers = findSectionHeaders content;
          availableSections =
            join ([newline] @ bullet @ '' '')
              (map (\<lambda>h. ''#'' @ anchor h @ '' ('' @ title h @ '')'') headers)
      in ''Section '' @ apostrophe @ ''#'' @ sectionAnchor @ apostrophe @ '' not found in ''
           @ library @ ''/'' @ filePath @ ''.'' @ [newline, newline] @ ''Available sections:''
           @ [newline] @ bullet @ '' '' @ availableSections)"

text \<open>
  The text payload of \<open>get-doc\<close>. \<open>file.split("#")\<close> gives the path and the anchor (what
  follows a second \<open>#\<close> is dropped); an empty anchor and an empty section are falsy, an
  inherited member is truthy and is printed in place of a section.
\<close>

definition getDoc :: "world \<Rightarrow> string \<Rightarrow> string \<Rightarrow> string" where
  "getDoc w library file =
     (let pieces = split_on (CHR ''#'') file;
          filePath = (if str_includes file ''#'' then pieces ! 0 else file);
          sectionAnchor = (if str_includes file ''#'' then Some (pieces ! 1) else None)
      in case getDocumentationContent w library filePath of
           Inl message \<Rightarrow>
             ''Error reading file '' @ apostrophe @ file @ apostrophe @ '' from library ''
               @ apostrophe @ library @ apostrophe @ '': '' @ message
         | Inr content \<Rightarrow>
             (if sectionAnchor \<noteq> None \<and> sectionAnchor \<noteq> Some [] then
                (case getProperty (extractMarkdownSections content)
                        (toLowerCase (the sectionAnchor)) of
                   Missing \<Rightarrow> sectionNotFound library filePath (the sectionAnchor) content
                 | Own sectionText \<Rightarrow>
                     if sectionText \<noteq> [] then
                       ''# '' @ library @ ''/'' @ filePath @ ''#'' @ the sectionAnchor
                         @ [newline, newline] @ sectionText
                     else sectionNotFound library filePath (the sectionAnchor) content
                 | Inherited \<Rightarrow>
                     ''# '' @ library @ ''/'' @ filePath @ ''#'' @ the sectionAnchor
                       @ [newline, newline] @ inheritedText (toLowerCase (the sectionAnchor)))
              else ''# '' @ library @ ''/'' @ file @ [newline, newline] @ content))"

section \<open>Analysing a repository (repoManagement.ts)\<close>

text \<open>
  \<open>path.extname\<close> (POSIX): the last segment of the path from its last dot on; empty when
  the segment has no dot, starts with its only dot, or is \<open>..\<close>.
\<close>

definition extname :: "string \<Rightarrow> string" where
  "extname p =
     (let stripped = rev (dropWhile (\<lambda>c. c = CHR ''/'') (rev p));
          segment = rev (takeWhile (\<lambda>c. c \<noteq> CHR ''/'') (rev stripped));
          ext = rev (takeWhile (\<lambda>c. c \<noteq> CHR ''.'') (rev segment))
      in if CHR ''.'' \<notin> set segment \<or> length ext + 1 = length segment \<or> segment = ''..''
         then []
         else CHR ''.'' # ext)"

text \<open>An entry of the result tree: \<open>{...item, path, children}\<close>.\<close>

datatype tree_node = TreeNode dir_entry string "tree_node list option"

record analysis =
  fileTypeCounts :: "string \<rightharpoonup> nat"
  suggested_srcPaths :: "string list"
  suggested_examplePaths :: "string list"
  suggested_docsPaths :: "string list"

text \<open>
  The histogram is indexed by extensions only, which are empty or begin with a dot: the
  lookup never meets an inherited member, and it is the lookup of the map.
\<close>

definition countFile :: "analysis \<Rightarrow> string \<Rightarrow> analysis" where
  \<comment> \<open>\<open>fileTypeCounts[ext] = (fileTypeCounts[ext] || 0) + 1\<close>\<close>
  "countFile a ext =
     a\<lparr>fileTypeCounts := (fileTypeCounts a)
          (ext \<mapsto> (case fileTypeCounts a ext of None \<Rightarrow> 0 | Some n \<Rightarrow> n) + 1)\<rparr>"


text \<open>The three pushes after an expanded directory.\<close>

definition suggestPaths :: "analysis \<Rightarrow> dir_entry \<Rightarrow> string \<Rightarrow> analysis" where
  "suggestPaths a item itemPath =
     (let a1 = (if str_includes (toLowerCase (entry_name item)) ''src''
                then a\<lparr>suggested_srcPaths := suggested_srcPaths a @ [itemPath]\<rparr> else a);
          a2 = (if str_includes (toLowerCase (entry_name item)) ''example'' \<or>
                   str_includes (toLowerCase (entry_name item)) ''demo''
                then a1\<lparr>suggested_examplePaths := suggested_examplePaths a1 @ [itemPath]\<rparr>
                else a1)
      in if str_includes (toLowerCase (entry_name item)) ''docs''
         then a2\<lparr>suggested_docsPaths := suggested_docsPaths a2 @ [itemPath]\<rparr> else a2)"





text \<open>The file entries of a result tree, at every depth.\<close>

fun fileEntries :: "tree_node \<Rightarrow> dir_entry list" where
  "fileEntries (TreeNode item itemPath children) =
     (if entry_type item = ''file'' then [item] else [])
       @ (case children of None \<Rightarrow> [] | Some cs \<Rightarrow> concat (map fileEntries cs))"

text \<open>How many of them have a given extension.\<close>

definition filesWithExtension :: "string \<Rightarrow> tree_node list \<Rightarrow> nat" where
  "filesWithExtension ext nodes =
     length (filter (\<lambda>item. toLowerCase (extname (entry_name item)) = ext)
               (concat (map fileEntries nodes)))"


section \<open>Adding a repository (repoManagement.ts)\<close>

record add_repository_args =
  arg_key :: string
  arg_name :: string
  arg_description :: string
  arg_repo :: string
  arg_mainBranch :: string
  arg_srcPaths :: "string list"
  arg_examplePaths :: "string list"
  arg_docsRepo :: "string option"
  arg_docsBranch :: "string option"
  arg_docsPaths :: "string list option"

text \<open>\<open>x || y\<close> for an optional string: absent and empty are falsy.\<close>

definition orElse :: "string option \<Rightarrow> string \<Rightarrow> string" where
  "orElse x y = (case x of None \<Rightarrow> y | Some s \<Rightarrow> if s = [] then y else s)"

definition newRepo :: "add_repository_args \<Rightarrow> RepoConfig" where
  "newRepo args =
     \<lparr>name = arg_name args, description = arg_description args,
      github = ''https://github.com/'' @ arg_repo args, repo = arg_repo args,
      mainBranch = arg_mainBranch args, srcPaths = arg_srcPaths args,
      examplePaths = arg_examplePaths args,
      docs = (case arg_docsPaths args of
                None \<Rightarrow> None
              | Some ps \<Rightarrow>
                  if ps \<noteq> [] then
                    Some \<lparr>docs_repo = orElse (arg_docsRepo args) (arg_repo args),
                          docs_branch = orElse (arg_docsBranch args) (arg_mainBranch args),
                          docs_paths = ps\<rparr>
                  else None)\<rparr>"

definition crossMark :: string where
  "crossMark = [CHR 0xE2, CHR 0x9D, CHR 0x8C]"

definition checkMark :: string where
  "checkMark = [CHR 0xE2, CHR 0x9C, CHR 0x85]"

definition clipboardIcon :: string where
  "clipboardIcon = [CHR 0xF0, CHR 0x9F, CHR 0x93, CHR 0x8B]"

definition rocketIcon :: string where
  "rocketIcon = [CHR 0xF0, CHR 0x9F, CHR 0x9A, CHR 0x80]"

definition alreadyExistsText :: "string \<Rightarrow> string" where
  "alreadyExistsText key =
     crossMark @ '' Repository key '' @ apostrophe @ key @ apostrophe
       @ '' already exists in repodata.json. Use a different key or update the existing entry manually.''"

definition addedText :: "add_repository_args \<Rightarrow> string" where
  "addedText args =
     (let key = arg_key args; r = newRepo args
      in checkMark @ '' Successfully added repository '' @ apostrophe @ key @ apostrophe
           @ '' to repodata.json!'' @ [newline, newline]
           @ ''## '' @ clipboardIcon @ '' Configuration Added:'' @ [newline]
           @ ''- **Key:** '' @ key @ [newline]
           @ ''- **Name:** '' @ arg_name args @ [newline]
           @ ''- **Description:** '' @ arg_description args @ [newline]
           @ ''- **Repository:** https://github.com/'' @ arg_repo args @ [newline]
           @ ''- **Branch:** '' @ arg_mainBranch args @ [newline]
           @ ''- **Source Paths:** '' @ join '', '' (arg_srcPaths args) @ [newline]
           @ ''- **Example Paths:** '' @ join '', '' (arg_examplePaths args) @ [newline]
           @ (case docs r of
                Some d \<Rightarrow>
                  ''- **Docs Repository:** https://github.com/'' @ docs_repo d @ [newline]
                    @ ''- **Docs Branch:** '' @ docs_branch d @ [newline]
                    @ ''- **Docs Paths:** '' @ join '', '' (docs_paths d)
              | None \<Rightarrow> ''- **Docs:** Using local documentation only'')
           @ [newline, newline]
           @ ''## '' @ rocketIcon @ '' Available Tools for '' @ apostrophe @ key @ apostrophe
           @ '':'' @ [newline]
           @ ''You can now use all repository and example tools with this library:'' @ [newline]
           @ ''- `browse-repo library:'' @ key @ ''`'' @ [newline]
           @ ''- `read-source-file library:'' @ key @ ''`'' @ [newline]
           @ ''- `search-source library:'' @ key @ ''`'' @ [newline]
           @ ''- `search-examples library:'' @ key @ ''`'' @ [newline]
           @ ''- `list-examples library:'' @ key @ ''`'' @ [newline]
           @ ''- `get-example library:'' @ key @ ''`'' @ [newline, newline]
           @ ''The new repository is immediately available for use!'')"

text \<open>
  The handler of \<open>add-repository\<close>: the text payload and the world after it. The registry is
  loaded and \<open>currentRepoData[key]\<close> is tested; only when that is falsy the whole document is
  written back with the new entry (\<open>{...currentRepoData, [key]: newRepo}\<close>; the new key is
  listed last here, the engine lists a key that is a whole number before the others). The
  write itself is taken to succeed.
\<close>

definition addRepository :: "world \<Rightarrow> add_repository_args \<Rightarrow> string \<times> world" where
  "addRepository w args =
     (let currentRepoData = loadRepoData w
      in case getProperty (map_of currentRepoData) (arg_key args) of
           Own existing \<Rightarrow> (alreadyExistsText (arg_key args), w)
         | Inherited \<Rightarrow> (alreadyExistsText (arg_key args), w)
         | Missing \<Rightarrow>
             (let updatedRepoData = currentRepoData @ [(arg_key args, newRepo args)]
              in (addedText args,
                  w\<lparr>repodata_json := Some updatedRepoData,
                    written := written w @ [updatedRepoData]\<rparr>)))"

section \<open>Sample worlds\<close>

text \<open>
  A remote that answers from a table of URLs, and a world around it with no API key, no
  registry document and no local documentation. Its clock shows 1700000000 seconds after
  the epoch as a UTC host with the \<open>en-US\<close> locale does.
\<close>

definition listingResponse :: "dir_entry list \<Rightarrow> fetch_outcome" where
  "listingResponse items =
     Response \<lparr>status = 200, statusText = ''OK'', response_headers = Map.empty,
               body = Listing items\<rparr>"

definition fileResponse :: "string \<Rightarrow> fetch_outcome" where
  "fileResponse base64Content =
     Response \<lparr>status = 200, statusText = ''OK'', response_headers = Map.empty,
               body = FileObject \<lparr>file_type = ''file'', file_encoding = ''base64'',
                                  file_content = base64Content,
                                  file_size = length base64Content\<rparr>\<rparr>"

definition notFoundResponse :: fetch_outcome where
  "notFoundResponse =
     Response \<lparr>status = 404, statusText = ''Not Found'', response_headers = Map.empty,
               body = Unparseable []\<rparr>"

definition sampleWorld :: "(string \<Rightarrow> fetch_outcome) \<Rightarrow> world" where
  "sampleWorld remote =
     \<lparr>config_apiKey = [], http = (\<lambda>url requestHeaders. remote url),
      toLocaleTimeString = (\<lambda>ms. if ms = 1700000000000 then ''10:13:20 PM'' else ''12:00:00 AM''),
      repodata_json = None, written = [], localDocs = (\<lambda>library filePath. None)\<rparr>"

definition fileEntry :: "string \<Rightarrow> dir_entry" where
  "fileEntry nm = \<lparr>entry_name = nm, entry_type = ''file''\<rparr>"

definition dirEntry :: "string \<Rightarrow> dir_entry" where
  "dirEntry nm = \<lparr>entry_name = nm, entry_type = ''dir''\<rparr>"

text \<open>
  The tree \<open>a.ts\<close>, \<open>sub/b.ts\<close> of the repository \<open>o/r\<close> on \<open>main\<close>. The file \<open>a.ts\<close> has
  six lines, each the letter \<open>q\<close>; \<open>sub/b.ts\<close> cannot be fetched.
\<close>

definition twoLevelRemote :: "string \<Rightarrow> fetch_outcome" where
  "twoLevelRemote url =
     (if url = ''https://api.github.com/repos/o/r/contents/?ref=main''
        then listingResponse [fileEntry ''a.ts'', dirEntry ''sub'']
      else if url = ''https://api.github.com/repos/o/r/contents/sub?ref=main''
        then listingResponse [fileEntry ''b.ts'']
      else if url = ''https://api.github.com/repos/o/r/contents/a.ts?ref=main''
        then fileResponse ''cQpxCnEKcQpxCnE=''
      else notFoundResponse)"

text \<open>Two directories \<open>a\<close> and \<open>b\<close> of \<open>o/r\<close>, each with the eleven files \<open>f0.ts\<close> to \<open>f10.ts\<close>.\<close>

definition wideRemote :: "string \<Rightarrow> fetch_outcome" where
  "wideRemote url =
     (if url = ''https://api.github.com/repos/o/r/contents/a?ref=main'' \<or>
         url = ''https://api.github.com/repos/o/r/contents/b?ref=main''
        then listingResponse (map (\<lambda>i. fileEntry (''f'' @ show_nat i @ ''.ts'')) [0..<11])
      else notFoundResponse)"

definition sampleConfig :: RepoConfig where
  "sampleConfig =
     \<lparr>name = ''Sample'', description = ''d'', github = ''https://github.com/o/r'',
      repo = ''o/r'', mainBranch = ''main'', srcPaths = [''a'', ''b''],
      examplePaths = [''examples''], docs = None\<rparr>"


text \<open>
  The remote of scenario C, which answers every request with 403 and the two rate-limit
  headers, and one that answers 403 with no such header.
\<close>

definition rateLimitedRemote :: "string \<Rightarrow> fetch_outcome" where
  "rateLimitedRemote url =
     Response \<lparr>status = 403, statusText = ''Forbidden'',
               response_headers = [''X-RateLimit-Remaining'' \<mapsto> ''0'',
                                   ''X-RateLimit-Reset'' \<mapsto> ''1700000000''],
               body = Unparseable []\<rparr>"

definition forbiddenRemote :: "string \<Rightarrow> fetch_outcome" where
  "forbiddenRemote url =
     Response \<lparr>status = 403, statusText = ''Forbidden'', response_headers = Map.empty,
               body = Unparseable []\<rparr>"

text \<open>A world whose registry holds the sample library under the key \<open>lib\<close>.\<close>

definition registeredWorld :: "(string \<Rightarrow> fetch_outcome) \<Rightarrow> world" where
  "registeredWorld remote = (sampleWorld remote)\<lparr>repodata_json := Some [(''lib'', sampleConfig)]\<rparr>"

text \<open>A world whose local documentation of \<open>lib\<close> is the one file \<open>f.md\<close>.\<close>

definition docsWorld :: "string \<Rightarrow> world" where
  "docsWorld content =
     (sampleWorld (\<lambda>url. notFoundResponse))
       \<lparr>localDocs := (\<lambda>library filePath.
           if library = ''lib'' \<and> filePath = ''f.md'' then Some content else None)\<rparr>"

text \<open>A file of five lines, the third of which is \<open>q\<close>.\<close>

definition fiveLines :: string where
  "fiveLines = ''a'' @ [newline] @ ''b'' @ [newline] @ ''q'' @ [newline] @ ''d'' @ [newline] @ ''e''"

text \<open>The arguments of scenario A.\<close>

definition zodArgs :: add_repository_args where
  "zodArgs =
     \<lparr>arg_key = ''zod'', arg_name = ''Zod'', arg_description = ''d'',
      arg_repo = ''colinhacks/zod'', arg_mainBranch = ''main'',
      arg_srcPaths = [''packages/zod/src''], arg_examplePaths = [''packages/docs/examples''],
      arg_docsRepo = None, arg_docsBranch = None, arg_docsPaths = None\<rparr>"

text \<open>
  Two documents: one with the single heading \<open>Foo Bar\<close>, and one with a second heading
  whose title is the anchor of the first.
\<close>

definition oneHeading :: string where
  "oneHeading = ''# Foo Bar'' @ [newline] @ ''text''"

definition twoHeadings :: string where
  "twoHeadings = ''# Foo Bar'' @ [newline] @ ''# foo-bar''"

text \<open>The same two headings with lines under each.\<close>

definition twoHeadingsBody :: string where
  "twoHeadingsBody = ''# Foo Bar'' @ [newline] @ ''first'' @ [newline] @ ''## foo-bar''
     @ [newline] @ ''second'' @ [newline] @ ''third''"

text \<open>The arguments of scenario A under the key \<open>constructor\<close>.\<close>

definition constructorArgs :: add_repository_args where
  "constructorArgs = zodArgs\<lparr>arg_key := ''constructor''\<rparr>"

text \<open>Documents whose only heading is \<open>__proto__\<close>, and \<open>Constructor()\<close>.\<close>

definition protoHeading :: string where
  "protoHeading = ''# __proto__'' @ [newline] @ ''text''"

definition constructorHeading :: string where
  "constructorHeading = ''## Constructor()'' @ [newline] @ ''text''"

section \<open>Sections are stored under the lower-cased heading text, the last heading winning\<close>

text \<open>A key that no later heading uses, and that is not the open section's, keeps its value.\<close>

lemma sections_kept:
  assumes "\<forall>l\<in>set ls. headingKey l \<noteq> Some k"
    and "currentSectionName st = [] \<or> toLowerCase (currentSectionName st) \<noteq> k"
  shows "sections (saveSection (foldl extractStep st ls)) k = sections st k"
  using assms
proof (induction ls arbitrary: st)
  case Nil
  then show ?case by (auto simp: saveSection_def setProperty_def)
next
  case (Cons l ls)
  have step: "sections (extractStep st l) k = sections st k"
    using Cons.prems(2)
    by (auto simp: extractStep_def saveSection_def setProperty_def split: option.splits)
  have open_name: "currentSectionName (extractStep st l) = [] \<or>
      toLowerCase (currentSectionName (extractStep st l)) \<noteq> k"
    using Cons.prems by (auto simp: extractStep_def headingKey_def split: option.splits)
  have "sections (saveSection (foldl extractStep (extractStep st l) ls)) k =
      sections (extractStep st l) k"
    using Cons.IH [of "extractStep st l"] Cons.prems(1) open_name by simp
  with step show ?case by simp
qed

text \<open>The open section ends at the next heading and is stored with the lines up to there.\<close>

lemma section_open:
  assumes "\<forall>l\<in>set ls. headingKey l \<noteq> Some k"
    and "currentSectionName st \<noteq> []" and "toLowerCase (currentSectionName st) = k"
    and "sectionContent st \<noteq> []" and "k \<noteq> ''__proto__''"
  shows "sections (saveSection (foldl extractStep st ls)) k =
     Some (join [newline] (sectionContent st @ takeWhile (\<lambda>l. headerMatch l = None) ls))"
  using assms
proof (induction ls arbitrary: st)
  case Nil
  then show ?case by (simp add: saveSection_def setProperty_def)
next
  case (Cons l ls)
  show ?case
  proof (cases "headerMatch l")
    case None
    then have st': "extractStep st l = st\<lparr>sectionContent := sectionContent st @ [l]\<rparr>"
      by (simp add: extractStep_def)
    show ?thesis
      using Cons.IH [of "st\<lparr>sectionContent := sectionContent st @ [l]\<rparr>"] Cons.prems None st'
      by simp
  next
    case (Some p)
    obtain h t where p: "p = (h, t)" by (cases p)
    let ?st' = "extractStep st l"
    have key: "toLowerCase (trim t) \<noteq> k"
      using Cons.prems(1) Some p by (auto simp: headingKey_def)
    have stored: "sections ?st' k = Some (join [newline] (sectionContent st))"
      using Some p Cons.prems by (simp add: extractStep_def saveSection_def setProperty_def)
    have open_name: "currentSectionName ?st' = [] \<or> toLowerCase (currentSectionName ?st') \<noteq> k"
      using Some p key by (simp add: extractStep_def)
    have "sections (saveSection (foldl extractStep ?st' ls)) k = sections ?st' k"
      using sections_kept [of ls k ?st'] Cons.prems(1) open_name by simp
    with stored Some show ?thesis by simp
  qed
qed

lemma section_last:
  assumes "headerMatch l = Some (h, t)" and "trim t \<noteq> []"
    and "\<forall>x\<in>set post. headingKey x \<noteq> Some (toLowerCase (trim t))"
    and "toLowerCase (trim t) \<noteq> ''__proto__''"
  shows "sections (saveSection (foldl extractStep st (pre @ l # post))) (toLowerCase (trim t)) =
     Some (join [newline] (l # takeWhile (\<lambda>x. headerMatch x = None) post))"
proof -
  let ?st1 = "foldl extractStep st pre"
  let ?st2 = "extractStep ?st1 l"
  have a: "currentSectionName ?st2 = trim t" "sectionContent ?st2 = [l]"
    using assms(1) by (simp_all add: extractStep_def)
  have "sections (saveSection (foldl extractStep ?st2 post)) (toLowerCase (trim t)) =
     Some (join [newline] (sectionContent ?st2 @ takeWhile (\<lambda>x. headerMatch x = None) post))"
    by (rule section_open) (use assms a in auto)
  then show ?thesis using a by simp
qed

lemma join_prefix: "prefix x (join sep (x # xs))"
  by (cases xs) auto

text \<open>A key that no heading line has is not in the mapping.\<close>

lemma sections_only_headings:
  assumes "\<forall>l\<in>set (split_on newline content). headingKey l \<noteq> Some k"
  shows "extractMarkdownSections content k = None"
  unfolding extractMarkdownSections_def
  using sections_kept [OF assms, of "\<lparr>sections = Map.empty, currentSectionName = [],
      sectionContent = []\<rparr>"]
  by simp

lemma sections_of_heading:
  assumes "l \<in> set (split_on newline content)" and "headingKey l = Some k" and "k \<noteq> []"
    and "k \<noteq> ''__proto__''"
  shows "extractMarkdownSections content k \<noteq> None"
proof -
  have "\<exists>x\<in>set (split_on newline content). headingKey x = Some k"
    using assms(1,2) by blast
  then obtain pre l' post where dec: "split_on newline content = pre @ l' # post"
    and l': "headingKey l' = Some k" and post: "\<forall>x\<in>set post. headingKey x \<noteq> Some k"
    using split_list_last_prop [of "split_on newline content" "\<lambda>x. headingKey x = Some k"]
    by blast
  from l' obtain h t where m: "headerMatch l' = Some (h, t)" and k: "toLowerCase (trim t) = k"
    by (auto simp: headingKey_def split: option.splits)
  have ne: "trim t \<noteq> []" using k assms(3) by (auto simp: toLowerCase_def)
  show ?thesis
    unfolding extractMarkdownSections_def dec
    using section_last [OF m ne, of post _ pre] post k assms(4) by simp
qed

text \<open>
  Nothing is ever stored under the empty key, which the guard refuses, nor under
  \<open>__proto__\<close>, where the assignment has no effect.
\<close>

lemma saveSection_unstored:
  assumes "k = [] \<or> k = ''__proto__''"
  shows "sections (saveSection st) k = sections st k"
  using assms by (auto simp: saveSection_def setProperty_def toLowerCase_def)

lemma extractStep_unstored:
  assumes "k = [] \<or> k = ''__proto__''"
  shows "sections (extractStep st l) k = sections st k"
  using saveSection_unstored [OF assms]
  by (auto simp: extractStep_def split: option.splits)

lemma foldl_extractStep_unstored:
  assumes "k = [] \<or> k = ''__proto__''"
  shows "sections (foldl extractStep st ls) k = sections st k"
  by (induction ls arbitrary: st) (simp_all add: extractStep_unstored [OF assms])

lemma never_stored:
  assumes "k = [] \<or> k = ''__proto__''"
  shows "extractMarkdownSections content k = None"
  unfolding extractMarkdownSections_def
  by (simp add: saveSection_unstored [OF assms] foldl_extractStep_unstored [OF assms])

text \<open>Whatever the mapping holds is the section of the last heading line with that key.\<close>

lemma sections_stored:
  assumes "extractMarkdownSections content k = Some sectionBody"
  shows "k \<noteq> [] \<and>
     (\<exists>pre l' post. split_on newline content = pre @ l' # post \<and>
        headingKey l' = Some k \<and> (\<forall>x\<in>set post. headingKey x \<noteq> Some k) \<and>
        sectionBody = join [newline] (l' # takeWhile (\<lambda>x. headerMatch x = None) post))"
proof -
  have k: "k \<noteq> []" "k \<noteq> ''__proto__''"
    using never_stored [of k content] assms by auto
  have "\<exists>x\<in>set (split_on newline content). headingKey x = Some k"
    using sections_only_headings [of content k] assms by auto
  then obtain pre l' post where dec: "split_on newline content = pre @ l' # post"
    and l': "headingKey l' = Some k" and post: "\<forall>x\<in>set post. headingKey x \<noteq> Some k"
    using split_list_last_prop [of "split_on newline content" "\<lambda>x. headingKey x = Some k"]
    by blast
  from l' obtain h t where m: "headerMatch l' = Some (h, t)" and kt: "toLowerCase (trim t) = k"
    by (auto simp: headingKey_def split: option.splits)
  have ne: "trim t \<noteq> []" using kt k(1) by (auto simp: toLowerCase_def)
  have "extractMarkdownSections content k =
      Some (join [newline] (l' # takeWhile (\<lambda>x. headerMatch x = None) post))"
    unfolding extractMarkdownSections_def dec
    using section_last [OF m ne, of post _ pre] post kt k(2) by simp
  with assms dec l' post k show ?thesis by auto
qed

text \<open>
  Claim C2, as amended. Take any heading line of the content. If its title is not blank and
  its lower-cased title is not \<open>__proto__\<close>, the lines split as \<open>pre @ l' # post\<close>, where
  \<open>l'\<close> is the last heading line with the same lower-cased title (the given line is \<open>l'\<close>
  itself or lies before it), and looking the title up in the result of
  \<open>extractMarkdownSections\<close> finds an own property, the section of \<open>l'\<close>: that line and the
  lines after it up to the next heading, joined by newlines. So the body begins with the
  heading line of the last occurrence. If its title is blank, its key is the empty string
  and the lookup by that key finds nothing. And the heading is stored nowhere else: whatever
  the mapping holds, under any key, is the section of the last heading line with that key,
  and that key is not empty.
\<close>

theorem extractMarkdownSections_last_wins:
  assumes "l \<in> set (split_on newline content)"
    and "headerMatch l = Some (hashes, text)"
  shows
    "(trim text \<noteq> [] \<and> toLowerCase (trim text) \<noteq> ''__proto__'' \<longrightarrow>
      (\<exists>pre l' post.
        split_on newline content = pre @ l' # post \<and>
        headingKey l' = Some (toLowerCase (trim text)) \<and>
        (\<forall>x\<in>set post. headingKey x \<noteq> Some (toLowerCase (trim text))) \<and>
        (l = l' \<or> l \<in> set pre) \<and>
        getProperty (extractMarkdownSections content) (toLowerCase (trim text)) =
          Own (join [newline] (l' # takeWhile (\<lambda>x. headerMatch x = None) post)) \<and>
        prefix l' (join [newline] (l' # takeWhile (\<lambda>x. headerMatch x = None) post)))) \<and>
     (trim text = [] \<longrightarrow>
        headingKey l = Some [] \<and>
        getProperty (extractMarkdownSections content) (toLowerCase (trim text)) = Missing) \<and>
     (\<forall>k sectionBody. extractMarkdownSections content k = Some sectionBody \<longrightarrow>
        k \<noteq> [] \<and>
        (\<exists>pre l' post. split_on newline content = pre @ l' # post \<and>
           headingKey l' = Some k \<and>
           (\<forall>x\<in>set post. headingKey x \<noteq> Some k) \<and>
           sectionBody = join [newline] (l' # takeWhile (\<lambda>x. headerMatch x = None) post)))"
proof -
  let ?k = "toLowerCase (trim text)"
  let ?lines = "split_on newline content"
  have first: "\<exists>pre l' post.
        split_on newline content = pre @ l' # post \<and>
        headingKey l' = Some ?k \<and>
        (\<forall>x\<in>set post. headingKey x \<noteq> Some ?k) \<and>
        (l = l' \<or> l \<in> set pre) \<and>
        getProperty (extractMarkdownSections content) ?k =
          Own (join [newline] (l' # takeWhile (\<lambda>x. headerMatch x = None) post)) \<and>
        prefix l' (join [newline] (l' # takeWhile (\<lambda>x. headerMatch x = None) post))"
    if nb: "trim text \<noteq> []" and np: "?k \<noteq> ''__proto__''"
  proof -
    have "\<exists>x\<in>set ?lines. headingKey x = Some ?k"
      using assms(1,2) by (auto simp: headingKey_def intro!: bexI [of _ l])
    then obtain pre l' post where dec: "?lines = pre @ l' # post"
      and l': "headingKey l' = Some ?k" and post: "\<forall>x\<in>set post. headingKey x \<noteq> Some ?k"
      using split_list_last_prop [of ?lines "\<lambda>x. headingKey x = Some ?k"] by blast
    from l' obtain h' t' where m: "headerMatch l' = Some (h', t')"
      and k: "toLowerCase (trim t') = ?k"
      by (auto simp: headingKey_def split: option.splits)
    have ne: "trim t' \<noteq> []"
      using k nb by (auto simp: toLowerCase_def)
    have mem: "l = l' \<or> l \<in> set pre"
    proof -
      have "l \<notin> set post" using post assms(2) by (auto simp: headingKey_def)
      then show ?thesis using assms(1) dec by auto
    qed
    have "extractMarkdownSections content ?k =
        Some (join [newline] (l' # takeWhile (\<lambda>x. headerMatch x = None) post))"
      unfolding extractMarkdownSections_def dec
      using section_last [OF m ne, of post _ pre] post k np by simp
    then have "getProperty (extractMarkdownSections content) ?k =
        Own (join [newline] (l' # takeWhile (\<lambda>x. headerMatch x = None) post))"
      by (simp add: getProperty_def)
    with dec l' post mem show ?thesis using join_prefix by blast
  qed
  have blank: "headingKey l = Some [] \<and>
      getProperty (extractMarkdownSections content) ?k = Missing"
    if "trim text = []"
    using that assms(2) never_stored [of "[]" content]
    by (simp add: headingKey_def toLowerCase_def getProperty_def objectPrototypeKeys_def)
  have stored: "\<forall>k sectionBody. extractMarkdownSections content k = Some sectionBody \<longrightarrow>
        k \<noteq> [] \<and>
        (\<exists>pre l' post. split_on newline content = pre @ l' # post \<and>
           headingKey l' = Some k \<and>
           (\<forall>x\<in>set post. headingKey x \<noteq> Some k) \<and>
           sectionBody = join [newline] (l' # takeWhile (\<lambda>x. headerMatch x = None) post))"
    using sections_stored by blast
  from first blank stored show ?thesis by blast
qed

text \<open>
  The theorem at a document with two headings that share the key \<open>a\<close>: looking up the
  first heading's title returns the section of the second. And at a document whose first
  heading has a blank title: the lines under it are lost, the section of the heading \<open>B\<close>
  is kept.
\<close>

theorem extractMarkdownSections_last_wins_witness:
  "''# A'' \<in> set (split_on newline
      (''# A'' @ [newline] @ ''text'' @ [newline] @ ''## a'' @ [newline] @ ''more'')) \<and>
   headerMatch ''# A'' = Some (''#'', ''A'') \<and> trim ''A'' \<noteq> [] \<and>
   toLowerCase (trim ''A'') \<noteq> ''__proto__'' \<and>
   getProperty (extractMarkdownSections
      (''# A'' @ [newline] @ ''text'' @ [newline] @ ''## a'' @ [newline] @ ''more'')) ''a''
     = Own (''## a'' @ [newline] @ ''more'') \<and>
   (\<exists>pre l' post.
      split_on newline (''# A'' @ [newline] @ ''text'' @ [newline] @ ''## a'' @ [newline] @ ''more'')
        = pre @ l' # post \<and>
      headingKey l' = Some (toLowerCase (trim ''A'')) \<and>
      (''# A'' = l' \<or> ''# A'' \<in> set pre) \<and>
      getProperty (extractMarkdownSections
        (''# A'' @ [newline] @ ''text'' @ [newline] @ ''## a'' @ [newline] @ ''more''))
        (toLowerCase (trim ''A''))
        = Own (join [newline] (l' # takeWhile (\<lambda>x. headerMatch x = None) post))) \<and>
   ''#  '' \<in> set (split_on newline
      (''#  '' @ [newline] @ ''lost'' @ [newline] @ ''# B'' @ [newline] @ ''kept'')) \<and>
   headerMatch ''#  '' = Some (''#'', '' '') \<and> trim '' '' = [] \<and>
   getProperty (extractMarkdownSections
      (''#  '' @ [newline] @ ''lost'' @ [newline] @ ''# B'' @ [newline] @ ''kept''))
      (toLowerCase (trim '' '')) = Missing \<and>
   extractMarkdownSections
      (''#  '' @ [newline] @ ''lost'' @ [newline] @ ''# B'' @ [newline] @ ''kept'') ''b''
     = Some (''# B'' @ [newline] @ ''kept'') \<and>
   (\<exists>pre l' post.
      split_on newline (''#  '' @ [newline] @ ''lost'' @ [newline] @ ''# B'' @ [newline] @ ''kept'')
        = pre @ l' # post \<and>
      headingKey l' = Some ''b'' \<and>
      ''# B'' @ [newline] @ ''kept''
        = join [newline] (l' # takeWhile (\<lambda>x. headerMatch x = None) post))"
proof -
  let ?c = "''# A'' @ [newline] @ ''text'' @ [newline] @ ''## a'' @ [newline] @ ''more''"
  let ?d = "''#  '' @ [newline] @ ''lost'' @ [newline] @ ''# B'' @ [newline] @ ''kept''"
  have h1: "''# A'' \<in> set (split_on newline ?c)" by code_simp
  have h2: "headerMatch ''# A'' = Some (''#'', ''A'')" by code_simp
  have h3: "trim ''A'' \<noteq> []" by code_simp
  have h4: "toLowerCase (trim ''A'') \<noteq> ''__proto__''" by code_simp
  have h5: "getProperty (extractMarkdownSections ?c) ''a'' = Own (''## a'' @ [newline] @ ''more'')"
    by code_simp
  have b1: "''#  '' \<in> set (split_on newline ?d)" by code_simp
  have b2: "headerMatch ''#  '' = Some (''#'', '' '')" by code_simp
  have b3: "trim '' '' = []" by code_simp
  have b4: "extractMarkdownSections ?d ''b'' = Some (''# B'' @ [newline] @ ''kept'')"
    by code_simp
  from extractMarkdownSections_last_wins [OF h1 h2] h3 h4 have first: "\<exists>pre l' post.
      split_on newline ?c = pre @ l' # post \<and>
      headingKey l' = Some (toLowerCase (trim ''A'')) \<and>
      (''# A'' = l' \<or> ''# A'' \<in> set pre) \<and>
      getProperty (extractMarkdownSections ?c) (toLowerCase (trim ''A''))
        = Own (join [newline] (l' # takeWhile (\<lambda>x. headerMatch x = None) post))"
    by blast
  from extractMarkdownSections_last_wins [OF b1 b2] b3
  have blank: "getProperty (extractMarkdownSections ?d) (toLowerCase (trim '' '')) = Missing"
    by blast
  from extractMarkdownSections_last_wins [OF b1 b2] b4 have stored: "\<exists>pre l' post.
      split_on newline ?d = pre @ l' # post \<and>
      headingKey l' = Some ''b'' \<and>
      ''# B'' @ [newline] @ ''kept''
        = join [newline] (l' # takeWhile (\<lambda>x. headerMatch x = None) post)"
    by blast
  from h1 h2 h3 h4 h5 first b1 b2 b3 blank b4 stored show ?thesis by blast
qed

text \<open>
  The claim as stated fails at a heading whose title is blank: the line \<open>#\<close> followed by two
  spaces matches the heading pattern (\<open>findSectionHeaders\<close> lists it), and its section is
  never stored.
\<close>

theorem extractMarkdownSections_blank_title:
  "''#  '' \<in> set (split_on newline ''#  '') \<and> headerMatch ''#  '' = Some (''#'', '' '') \<and>
   findSectionHeaders ''#  '' = [\<lparr>level = 1, title = [], anchor = []\<rparr>] \<and>
   getProperty (extractMarkdownSections ''#  '') (toLowerCase (trim '' '')) = Missing \<and>
   getProperty (extractMarkdownSections ''#  '') (toLowerCase '' '') = Missing"
  by code_simp

text \<open>
  The heading \<open>__proto__\<close> is the one title that the assignment does not store: the mapping
  stays empty, and the lookup finds the inherited member.
\<close>

lemma extractMarkdownSections_proto_heading:
  "headerMatch ''# __proto__'' = Some (''#'', ''__proto__'') \<and>
   extractMarkdownSections protoHeading ''__proto__'' = None \<and>
   getProperty (extractMarkdownSections protoHeading) ''__proto__'' = Inherited"
  by code_simp

section \<open>Decoding a file body\<close>

lemma sextet_bounds:
  fixes a b c :: nat
  assumes "a < 256" "b < 256" "c < 256"
  shows "a div 4 < 64" "(a mod 4) * 16 + b div 16 < 64" "(b mod 16) * 4 + c div 64 < 64"
    "c mod 64 < 64" "(a mod 4) * 16 < 64" "(b mod 16) * 4 < 64"
proof -
  have "a mod 4 < 4" "b mod 16 < 16" "b div 16 < 16" "c div 64 < 4"
    using assms by (simp_all add: less_mult_imp_div_less)
  then show "a div 4 < 64" "(a mod 4) * 16 + b div 16 < 64" "(b mod 16) * 4 + c div 64 < 64"
    "c mod 64 < 64" "(a mod 4) * 16 < 64" "(b mod 16) * 4 < 64"
    using assms by (simp_all add: less_mult_imp_div_less)
qed

lemma sextet_back1:
  fixes a b :: nat
  assumes "a < 256" "b < 256"
  shows "(a div 4 * 4 + ((a mod 4) * 16 + b div 16) div 16) mod 256 = a"
proof -
  have "b div 16 < 16" using assms by (simp add: less_mult_imp_div_less)
  then have "((a mod 4) * 16 + b div 16) div 16 = a mod 4" by simp
  then show ?thesis using assms by simp
qed

lemma sextet_back2:
  fixes a b c :: nat
  assumes "b < 256" "c < 256"
  shows "((((a mod 4) * 16 + b div 16) mod 16) * 16 + ((b mod 16) * 4 + c div 64) div 4) mod 256 = b"
proof -
  have "b div 16 < 16" "c div 64 < 4" using assms by (simp_all add: less_mult_imp_div_less)
  then have "((a mod 4) * 16 + b div 16) mod 16 = b div 16"
    "((b mod 16) * 4 + c div 64) div 4 = b mod 16" by simp_all
  then show ?thesis using assms by simp
qed

lemma sextet_back3:
  fixes b c :: nat
  assumes "c < 256"
  shows "((((b mod 16) * 4 + c div 64) mod 4) * 64 + c mod 64) mod 256 = c"
proof -
  have "c div 64 < 4" using assms by (simp add: less_mult_imp_div_less)
  then have "((b mod 16) * 4 + c div 64) mod 4 = c div 64" by simp
  then show ?thesis using assms by simp
qed

lemma unbase64_base64Char:
  assumes "n < 64"
  shows "unbase64 (base64Char n) = Some n" and "base64Char n \<noteq> CHR ''=''"
proof -
  consider "n < 26" | "26 \<le> n" "n < 52" | "52 \<le> n" "n < 62" | "n = 62" | "n = 63"
    using assms by linarith
  then show "unbase64 (base64Char n) = Some n"
    by cases (auto simp: unbase64_def base64Char_def Let_def)
  have "unbase64 (CHR ''='') = None" by (simp add: unbase64_def)
  with \<open>unbase64 (base64Char n) = Some n\<close> show "base64Char n \<noteq> CHR ''=''"
    by auto
qed

text \<open>Decoding undoes the encoder on every list of bytes.\<close>

lemma bufferFromBase64_encodeBytes:
  "\<forall>b\<in>set bs. b < 256 \<Longrightarrow> bufferFromBase64 (encodeBytes bs) = bs"
proof (induction bs rule: encodeBytes.induct)
  case (1 a b c rest)
  then have lt: "a < 256" "b < 256" "c < 256" and r: "\<forall>b\<in>set rest. b < 256" by auto
  have IH: "decodeSextets (List.map_filter unbase64
      (takeWhile (\<lambda>c. c \<noteq> CHR ''='') (encodeBytes rest))) = rest"
    using "1.IH" r by (simp add: bufferFromBase64_def)
  show ?case
    using IH sextet_bounds [OF lt] sextet_back1 [OF lt(1,2)] sextet_back2 [OF lt(2,3), of a]
      sextet_back3 [OF lt(3), of b]
    by (simp add: bufferFromBase64_def unbase64_base64Char map_filter_simps)
next
  case (2 a b)
  then have lt: "a < 256" "b < 256" "(0::nat) < 256" by auto
  show ?case
    using sextet_bounds [OF lt] sextet_back1 [OF lt(1,2)] sextet_back2 [OF lt(2,3), of a]
    by (simp add: bufferFromBase64_def unbase64_base64Char map_filter_simps)
next
  case (3 a)
  then have lt: "a < 256" "(0::nat) < 256" "(0::nat) < 256" by auto
  show ?case
    using sextet_bounds [OF lt] sextet_back1 [OF lt(1,2)]
    by (simp add: bufferFromBase64_def unbase64_base64Char map_filter_simps)
next
  case 4
  show ?case by (simp add: bufferFromBase64_def map_filter_simps)
qed

text \<open>The decoder of UTF-8 passes a well-formed sequence through, one lead class at a time.\<close>

lemma utf8ToString_two:
  "0xC2 \<le> b \<Longrightarrow> b \<le> 0xDF \<Longrightarrow> isContinuation c1 \<Longrightarrow>
   utf8ToString (b # c1 # rest) = b # c1 # utf8ToString rest"
  by simp

lemma utf8ToString_three:
  "0xE0 \<le> b \<Longrightarrow> b \<le> 0xEF \<Longrightarrow> secondByteOk b c1 \<Longrightarrow> isContinuation c2 \<Longrightarrow>
   utf8ToString (b # c1 # c2 # rest) = b # c1 # c2 # utf8ToString rest"
  by simp

lemma utf8ToString_four:
  "0xF0 \<le> b \<Longrightarrow> b \<le> 0xF4 \<Longrightarrow> secondByteOk b c1 \<Longrightarrow> isContinuation c2 \<Longrightarrow>
   isContinuation c3 \<Longrightarrow>
   utf8ToString (b # c1 # c2 # c3 # rest) = b # c1 # c2 # c3 # utf8ToString rest"
  by simp

lemma continuation_mod: "isContinuation (0x80 + n mod 64)"
proof -
  have "n mod 64 < 64" by simp
  then show ?thesis unfolding isContinuation_def by linarith
qed

lemma mod_window:
  fixes q :: nat
  assumes "k * m \<le> q" "q < k * m + r" "r \<le> m"
  shows "q mod m < r"
proof -
  obtain d where d: "q = k * m + d" using assms(1) le_Suc_ex by blast
  then have "d < r" using assms(2) by simp
  then have "d < m" using assms(3) by simp
  then have "q mod m = d" using d by simp
  with \<open>d < r\<close> show ?thesis by simp
qed

lemma div_lower:
  fixes c :: nat
  assumes "c div n = k"
  shows "k * n \<le> c"
  using assms div_times_less_eq_dividend [of c n] by auto

text \<open>How a scalar value of each size is encoded.\<close>

lemma encoding_two:
  assumes "0x80 \<le> c" "c < 0x800"
  shows "\<exists>b c1. utf8EncodeCodePoint c = [b, c1] \<and> 0xC2 \<le> b \<and> b \<le> 0xDF \<and> isContinuation c1"
proof -
  have "2 \<le> c div 64" "c div 64 < 32" using assms by (simp_all add: less_mult_imp_div_less)
  then have b: "0xC2 \<le> 0xC0 + c div 64" "0xC0 + c div 64 \<le> 0xDF" by linarith+
  have e: "utf8EncodeCodePoint c = [0xC0 + c div 64, 0x80 + c mod 64]"
    using assms by (simp add: utf8EncodeCodePoint_def)
  show ?thesis using e b continuation_mod by blast
qed

lemma encoding_three:
  assumes "0x800 \<le> c" "c < 0x10000" "isScalarValue c"
  shows "\<exists>b c1 c2. utf8EncodeCodePoint c = [b, c1, c2] \<and> 0xE0 \<le> b \<and> b \<le> 0xEF \<and>
     secondByteOk b c1 \<and> isContinuation c2"
proof -
  have q: "c div 4096 < 16" using assms(2) by (simp add: less_mult_imp_div_less)
  then have b: "0xE0 \<le> 0xE0 + c div 4096" "0xE0 + c div 4096 \<le> 0xEF" by linarith+
  have lo: "32 \<le> (c div 64) mod 64" if "c div 4096 = 0"
  proof -
    from that have "c < 4096" by (simp add: div_eq_0_iff)
    then have "c div 64 < 64" by (simp add: less_mult_imp_div_less)
    moreover have "2048 div 64 \<le> c div 64" using assms(1) by (intro div_le_mono) simp
    ultimately show ?thesis by simp
  qed
  have hi: "(c div 64) mod 64 < 32" if d: "c div 4096 = 13"
  proof -
    have "c < 0xD800"
    proof (rule ccontr)
      assume "\<not> c < 0xD800"
      then have "0xE000 \<le> c" using assms(3) by (simp add: isScalarValue_def)
      then have "0xE000 div 4096 \<le> c div 4096" by (intro div_le_mono)
      then show False using d by simp
    qed
    then have u: "c div 64 < 864" by (simp add: less_mult_imp_div_less)
    have "13 * 4096 \<le> c" using div_lower [OF d] by simp
    then have "(13 * 4096) div 64 \<le> c div 64" by (intro div_le_mono)
    then have l: "13 * 64 \<le> c div 64" by simp
    show ?thesis by (rule mod_window [of 13 64 "c div 64" 32]) (use l u in simp_all)
  qed
  have "(c div 64) mod 64 < 64" by simp
  then have m: "(c div 64) mod 64 \<le> 63" by linarith
  have s: "secondByteOk (0xE0 + c div 4096) (0x80 + (c div 64) mod 64)"
  proof -
    consider "c div 4096 = 0" | "c div 4096 = 13" | "c div 4096 \<noteq> 0" "c div 4096 \<noteq> 13"
      by blast
    then show ?thesis
    proof cases
      case 1
      with lo m q show ?thesis by (simp add: secondByteOk_def)
    next
      case 2
      with hi m q show ?thesis by (simp add: secondByteOk_def)
    next
      case 3
      with m q show ?thesis by (simp add: secondByteOk_def)
    qed
  qed
  have e: "utf8EncodeCodePoint c =
      [0xE0 + c div 4096, 0x80 + (c div 64) mod 64, 0x80 + c mod 64]"
    using assms by (simp add: utf8EncodeCodePoint_def)
  show ?thesis using e b s continuation_mod by blast
qed

lemma encoding_four:
  assumes "0x10000 \<le> c" "c < 0x110000"
  shows "\<exists>b c1 c2 c3. utf8EncodeCodePoint c = [b, c1, c2, c3] \<and> 0xF0 \<le> b \<and> b \<le> 0xF4 \<and>
     secondByteOk b c1 \<and> isContinuation c2 \<and> isContinuation c3"
proof -
  have q: "c div 262144 < 5"
  proof -
    have "c < 5 * 262144" using assms(2) by simp
    then show ?thesis by (simp add: less_mult_imp_div_less)
  qed
  then have b: "0xF0 \<le> 0xF0 + c div 262144" "0xF0 + c div 262144 \<le> 0xF4" by linarith+
  have lo: "16 \<le> (c div 4096) mod 64" if "c div 262144 = 0"
  proof -
    from that have "c < 262144" by (simp add: div_eq_0_iff)
    then have "c div 4096 < 64" by (simp add: less_mult_imp_div_less)
    moreover have "65536 div 4096 \<le> c div 4096" using assms(1) by (intro div_le_mono) simp
    ultimately show ?thesis by simp
  qed
  have hi: "(c div 4096) mod 64 < 16" if d: "c div 262144 = 4"
  proof -
    have u: "c div 4096 < 272" using assms(2) by (simp add: less_mult_imp_div_less)
    have "4 * 262144 \<le> c" using div_lower [OF d] by simp
    then have "(4 * 262144) div 4096 \<le> c div 4096" by (intro div_le_mono)
    then have l: "4 * 64 \<le> c div 4096" by simp
    show ?thesis by (rule mod_window [of 4 64 "c div 4096" 16]) (use l u in simp_all)
  qed
  have "(c div 4096) mod 64 < 64" by simp
  then have m: "(c div 4096) mod 64 \<le> 63" by linarith
  have s: "secondByteOk (0xF0 + c div 262144) (0x80 + (c div 4096) mod 64)"
  proof -
    consider "c div 262144 = 0" | "c div 262144 = 4" | "c div 262144 \<noteq> 0" "c div 262144 \<noteq> 4"
      by blast
    then show ?thesis
    proof cases
      case 1
      with lo m q show ?thesis by (simp add: secondByteOk_def)
    next
      case 2
      with hi m q show ?thesis by (simp add: secondByteOk_def)
    next
      case 3
      with m q show ?thesis by (simp add: secondByteOk_def)
    qed
  qed
  have e: "utf8EncodeCodePoint c =
      [0xF0 + c div 262144, 0x80 + (c div 4096) mod 64, 0x80 + (c div 64) mod 64,
       0x80 + c mod 64]"
    using assms by (simp add: utf8EncodeCodePoint_def)
  show ?thesis using e b s continuation_mod by blast
qed

lemma encode_two:
  assumes "0x80 \<le> c" "c < 0x800"
  shows "utf8ToString (utf8EncodeCodePoint c @ rest) = utf8EncodeCodePoint c @ utf8ToString rest"
proof -
  obtain b c1 where e: "utf8EncodeCodePoint c = [b, c1]"
    and b: "0xC2 \<le> b" "b \<le> 0xDF" and k: "isContinuation c1"
    using encoding_two [OF assms] by blast
  show ?thesis unfolding e using utf8ToString_two [OF b k] by simp
qed

lemma encode_three:
  assumes "0x800 \<le> c" "c < 0x10000" "isScalarValue c"
  shows "utf8ToString (utf8EncodeCodePoint c @ rest) = utf8EncodeCodePoint c @ utf8ToString rest"
proof -
  obtain b c1 c2 where e: "utf8EncodeCodePoint c = [b, c1, c2]"
    and b: "0xE0 \<le> b" "b \<le> 0xEF" and s: "secondByteOk b c1" and k: "isContinuation c2"
    using encoding_three [OF assms] by blast
  show ?thesis unfolding e using utf8ToString_three [OF b s k] by simp
qed

lemma encode_four:
  assumes "0x10000 \<le> c" "c < 0x110000"
  shows "utf8ToString (utf8EncodeCodePoint c @ rest) = utf8EncodeCodePoint c @ utf8ToString rest"
proof -
  obtain b c1 c2 c3 where e: "utf8EncodeCodePoint c = [b, c1, c2, c3]"
    and b: "0xF0 \<le> b" "b \<le> 0xF4" and s: "secondByteOk b c1"
    and k: "isContinuation c2" "isContinuation c3"
    using encoding_four [OF assms] by blast
  show ?thesis unfolding e using utf8ToString_four [OF b s k] by simp
qed

lemma utf8ToString_encode:
  assumes "isScalarValue c"
  shows "utf8ToString (utf8EncodeCodePoint c @ rest) = utf8EncodeCodePoint c @ utf8ToString rest"
proof -
  have "c < 0x110000" using assms by (auto simp: isScalarValue_def)
  then consider "c < 0x80" | "0x80 \<le> c" "c < 0x800" | "0x800 \<le> c" "c < 0x10000"
    | "0x10000 \<le> c" "c < 0x110000"
    by linarith
  then show ?thesis
  proof cases
    case 1
    then show ?thesis by (simp add: utf8EncodeCodePoint_def)
  next
    case 2
    then show ?thesis by (rule encode_two)
  next
    case 3
    then show ?thesis using assms by (rule encode_three)
  next
    case 4
    then show ?thesis by (rule encode_four)
  qed
qed

lemma utf8ToString_wellformed:
  "\<forall>c\<in>set cps. isScalarValue c \<Longrightarrow>
   utf8ToString (concat (map utf8EncodeCodePoint cps)) = concat (map utf8EncodeCodePoint cps)"
proof (induction cps)
  case Nil
  show ?case by simp
next
  case (Cons c cps)
  then show ?case using utf8ToString_encode [of c] by simp
qed

lemma utf8EncodeCodePoint_bytes:
  assumes "isScalarValue c" "b \<in> set (utf8EncodeCodePoint c)"
  shows "b < 256"
proof -
  have c: "c < 0x110000" using assms(1) by (auto simp: isScalarValue_def)
  have m: "n mod 64 < 64" for n :: nat by simp
  have "c div 64 < 32" if "c < 0x800" using that by (simp add: less_mult_imp_div_less)
  moreover have "c div 4096 < 16" if "c < 0x10000" using that by (simp add: less_mult_imp_div_less)
  moreover have "c div 262144 < 5"
  proof -
    have "c < 5 * 262144" using c by simp
    then show ?thesis by (simp add: less_mult_imp_div_less)
  qed
  ultimately show ?thesis
    using assms(2) m [of c] m [of "c div 64"] m [of "c div 4096"]
    by (auto simp: utf8EncodeCodePoint_def split: if_splits)
qed

lemma of_char_char_of_bytes:
  "\<forall>b\<in>set bs. b < 256 \<Longrightarrow> map of_char (map char_of bs) = (bs :: nat list)"
  by (induction bs) simp_all

text \<open>
  Claim C9. For every text that is the UTF-8 encoding of Unicode scalar values, decoding
  the base64 encoding of the text gives the text back.
\<close>

theorem decodeGitHubContent_roundtrip:
  assumes "\<forall>c\<in>set codePoints. isScalarValue c"
  shows "decodeGitHubContent (base64Encode (utf8Text codePoints)) = utf8Text codePoints"
proof -
  let ?bytes = "concat (map utf8EncodeCodePoint codePoints)"
  have small: "\<forall>b\<in>set ?bytes. b < 256"
    using assms utf8EncodeCodePoint_bytes by auto
  have "base64Encode (utf8Text codePoints) = encodeBytes ?bytes"
    using of_char_char_of_bytes [OF small] by (simp add: base64Encode_def utf8Text_def)
  moreover have "bufferFromBase64 (encodeBytes ?bytes) = ?bytes"
    using small by (rule bufferFromBase64_encodeBytes)
  moreover have "utf8ToString ?bytes = ?bytes"
    using assms by (rule utf8ToString_wellformed)
  ultimately show ?thesis
    by (simp add: decodeGitHubContent_def utf8Text_def)
qed

text \<open>
  The theorem at a text with a character of each encoded length: \<open>h\<close>, U+00E9, U+20AC and
  U+1F600.
\<close>

theorem decodeGitHubContent_roundtrip_witness:
  "isScalarValue 104 \<and> isScalarValue 233 \<and> isScalarValue 8364 \<and> isScalarValue 128512 \<and>
   utf8Text [104, 233, 8364, 128512] =
     [CHR ''h'', CHR 0xC3, CHR 0xA9, CHR 0xE2, CHR 0x82, CHR 0xAC, CHR 0xF0, CHR 0x9F, CHR 0x98,
      CHR 0x80] \<and>
   base64Encode (utf8Text [104, 233, 8364, 128512]) = ''aMOp4oKs8J+YgA=='' \<and>
   decodeGitHubContent ''aMOp4oKs8J+YgA=='' = utf8Text [104, 233, 8364, 128512]"
proof -
  have s: "isScalarValue 104" "isScalarValue 233" "isScalarValue 8364" "isScalarValue 128512"
    by (simp_all add: isScalarValue_def)
  have u: "utf8Text [104, 233, 8364, 128512] =
     [CHR ''h'', CHR 0xC3, CHR 0xA9, CHR 0xE2, CHR 0x82, CHR 0xAC, CHR 0xF0, CHR 0x9F, CHR 0x98,
      CHR 0x80]"
    by (simp add: utf8Text_def utf8EncodeCodePoint_def char_of_eq_iff)
  have "base64Encode [CHR ''h'', CHR 0xC3, CHR 0xA9, CHR 0xE2, CHR 0x82, CHR 0xAC, CHR 0xF0,
      CHR 0x9F, CHR 0x98, CHR 0x80] = ''aMOp4oKs8J+YgA==''"
    by code_simp
  with u have e: "base64Encode (utf8Text [104, 233, 8364, 128512]) = ''aMOp4oKs8J+YgA==''"
    by simp
  have "\<forall>c\<in>set [104, 233, 8364, 128512]. isScalarValue c" using s by simp
  from decodeGitHubContent_roundtrip [OF this] have
    "decodeGitHubContent (base64Encode (utf8Text [104, 233, 8364, 128512]))
       = utf8Text [104, 233, 8364, 128512]" .
  with e have "decodeGitHubContent ''aMOp4oKs8J+YgA=='' = utf8Text [104, 233, 8364, 128512]"
    by simp
  with s u e show ?thesis by blast
qed

lemma map_filter_legal:
  "List.map_filter f (filter (\<lambda>c. f c \<noteq> None) xs) = List.map_filter f xs"
  by (simp add: List.map_filter_def)

lemma takeWhile_no_padding:
  "takeWhile (\<lambda>c. c \<noteq> CHR ''='') (filter (\<lambda>c. unbase64 c \<noteq> None) xs)
     = filter (\<lambda>c. unbase64 c \<noteq> None) xs"
proof -
  have "unbase64 (CHR ''='') = None" by (simp add: unbase64_def)
  then have "\<forall>c\<in>set (filter (\<lambda>c. unbase64 c \<noteq> None) xs). c \<noteq> CHR ''=''" by auto
  then show ?thesis by (simp add: takeWhile_eq_all_conv)
qed

lemma bufferFromBase64_lenient:
  "bufferFromBase64 (filter (\<lambda>c. unbase64 c \<noteq> None) (takeWhile (\<lambda>c. c \<noteq> CHR ''='') s))
     = bufferFromBase64 s"
  unfolding bufferFromBase64_def by (simp only: takeWhile_no_padding map_filter_legal)

text \<open>
  What the decoder of UTF-8 accepts is the encoding of a scalar value: the converse of the
  lemmas on the encoder.
\<close>

lemma div_mod_digits:
  fixes q r n :: nat
  assumes "r < n"
  shows "(q * n + r) div n = q" and "(q * n + r) mod n = r"
  using assms by simp_all

lemma decoded_one:
  assumes "b < 0x80"
  shows "isScalarValue b \<and> utf8EncodeCodePoint b = [b]"
  using assms by (simp add: isScalarValue_def utf8EncodeCodePoint_def)

lemma decoded_two:
  assumes "0xC2 \<le> b" "b \<le> 0xDF" "isContinuation c1"
  shows "\<exists>c. isScalarValue c \<and> utf8EncodeCodePoint c = [b, c1]"
proof -
  obtain x where x: "b = 0xC0 + x" using assms(1) le_iff_add [of "0xC0" b] by auto
  obtain y where y: "c1 = 0x80 + y" using assms(3) le_iff_add [of "0x80" c1]
    by (auto simp: isContinuation_def)
  have bx: "2 \<le> x" "x < 32" using assms(1,2) x by simp_all
  have by': "y < 64" using assms(3) y by (simp add: isContinuation_def)
  define c where "c = x * 64 + y"
  have d: "c div 64 = x" "c mod 64 = y"
    unfolding c_def using div_mod_digits [OF by', of x] by simp_all
  have lo: "0x80 \<le> c" unfolding c_def using bx(1) by simp
  have hi: "c < 0x800" unfolding c_def using bx(2) by' by simp
  have "isScalarValue c" using hi by (simp add: isScalarValue_def)
  moreover have "utf8EncodeCodePoint c = [b, c1]"
    using lo hi d x y by (simp add: utf8EncodeCodePoint_def)
  ultimately show ?thesis by blast
qed

lemma decoded_three:
  assumes "0xE0 \<le> b" "b \<le> 0xEF" "secondByteOk b c1" "isContinuation c2"
  shows "\<exists>c. isScalarValue c \<and> utf8EncodeCodePoint c = [b, c1, c2]"
proof -
  obtain x where x: "b = 0xE0 + x" using assms(1) le_iff_add [of "0xE0" b] by auto
  have c1r: "0x80 \<le> c1" "c1 \<le> 0xBF"
    using assms(3) by (auto simp: secondByteOk_def split: if_splits)
  obtain y where y: "c1 = 0x80 + y" using c1r(1) le_iff_add [of "0x80" c1] by auto
  obtain z where z: "c2 = 0x80 + z" using assms(4) le_iff_add [of "0x80" c2]
    by (auto simp: isContinuation_def)
  have bx: "x < 16" using assms(2) x by simp
  have by': "y < 64" using c1r(2) y by simp
  have bz: "z < 64" using assms(4) z by (simp add: isContinuation_def)
  have ylo: "32 \<le> y" if "x = 0" using assms(3) that x y by (simp add: secondByteOk_def)
  have yhi: "y < 32" if "x = 13" using assms(3) that x y by (simp add: secondByteOk_def)
  define c where "c = (x * 64 + y) * 64 + z"
  have d1: "c div 64 = x * 64 + y" "c mod 64 = z"
    unfolding c_def using div_mod_digits [OF bz, of "x * 64 + y"] by simp_all
  have d2: "(c div 64) mod 64 = y" "(c div 64) div 64 = x"
    unfolding d1 using div_mod_digits [OF by', of x] by simp_all
  have d3: "c div 4096 = x"
  proof -
    have "c div 4096 = (c div 64) div 64" by (simp add: div_mult2_eq)
    then show ?thesis using d2(2) by simp
  qed
  have lo: "0x800 \<le> c"
  proof (cases "x = 0")
    case True
    then show ?thesis unfolding c_def using ylo by simp
  next
    case False
    then have "1 \<le> x" by simp
    then show ?thesis unfolding c_def by simp
  qed
  have hi: "c < 0x10000" unfolding c_def using bx by' bz by simp
  have sc: "isScalarValue c"
  proof -
    consider "x < 13" | "x = 13" | "14 \<le> x" by linarith
    then show ?thesis
    proof cases
      case 1
      then have "c < 0xD800" unfolding c_def using by' bz by simp
      then show ?thesis by (simp add: isScalarValue_def)
    next
      case 2
      then have "c < 0xD800" unfolding c_def using yhi bz by simp
      then show ?thesis by (simp add: isScalarValue_def)
    next
      case 3
      then have "0xE000 \<le> c" unfolding c_def by simp
      then show ?thesis using hi by (simp add: isScalarValue_def)
    qed
  qed
  have "utf8EncodeCodePoint c = [b, c1, c2]"
    using lo hi d1 d2 d3 x y z by (simp add: utf8EncodeCodePoint_def)
  with sc show ?thesis by blast
qed

lemma decoded_four:
  assumes "0xF0 \<le> b" "b \<le> 0xF4" "secondByteOk b c1" "isContinuation c2" "isContinuation c3"
  shows "\<exists>c. isScalarValue c \<and> utf8EncodeCodePoint c = [b, c1, c2, c3]"
proof -
  obtain w where w: "b = 0xF0 + w" using assms(1) le_iff_add [of "0xF0" b] by auto
  have c1r: "0x80 \<le> c1" "c1 \<le> 0xBF"
    using assms(3) by (auto simp: secondByteOk_def split: if_splits)
  obtain x where x: "c1 = 0x80 + x" using c1r(1) le_iff_add [of "0x80" c1] by auto
  obtain y where y: "c2 = 0x80 + y" using assms(4) le_iff_add [of "0x80" c2]
    by (auto simp: isContinuation_def)
  obtain z where z: "c3 = 0x80 + z" using assms(5) le_iff_add [of "0x80" c3]
    by (auto simp: isContinuation_def)
  have bw: "w < 5" using assms(2) w by simp
  have bx: "x < 64" using c1r(2) x by simp
  have by': "y < 64" using assms(4) y by (simp add: isContinuation_def)
  have bz: "z < 64" using assms(5) z by (simp add: isContinuation_def)
  have xlo: "16 \<le> x" if "w = 0" using assms(3) that w x by (simp add: secondByteOk_def)
  have xhi: "x < 16" if "w = 4" using assms(3) that w x by (simp add: secondByteOk_def)
  define c where "c = ((w * 64 + x) * 64 + y) * 64 + z"
  have d1: "c div 64 = (w * 64 + x) * 64 + y" "c mod 64 = z"
    unfolding c_def using div_mod_digits [OF bz, of "(w * 64 + x) * 64 + y"] by simp_all
  have d2: "(c div 64) mod 64 = y" "(c div 64) div 64 = w * 64 + x"
    unfolding d1 using div_mod_digits [OF by', of "w * 64 + x"] by simp_all
  have d3: "c div 4096 = w * 64 + x"
  proof -
    have "c div 4096 = (c div 64) div 64" by (simp add: div_mult2_eq)
    then show ?thesis using d2(2) by simp
  qed
  have d4: "(c div 4096) mod 64 = x" "(c div 4096) div 64 = w"
    unfolding d3 using div_mod_digits [OF bx, of w] by simp_all
  have d5: "c div 262144 = w"
  proof -
    have "c div 262144 = (c div 4096) div 64" by (simp add: div_mult2_eq)
    then show ?thesis using d4(2) by simp
  qed
  have lo: "0x10000 \<le> c"
  proof (cases "w = 0")
    case True
    then show ?thesis unfolding c_def using xlo by simp
  next
    case False
    then have "1 \<le> w" by simp
    then show ?thesis unfolding c_def by simp
  qed
  have hi: "c < 0x110000"
  proof (cases "w = 4")
    case True
    then show ?thesis unfolding c_def using xhi by' bz by simp
  next
    case False
    then have "w < 4" using bw by simp
    then show ?thesis unfolding c_def using bx by' bz by simp
  qed
  have sc: "isScalarValue c" using lo hi by (simp add: isScalarValue_def)
  have "utf8EncodeCodePoint c = [b, c1, c2, c3]"
    using lo hi d1 d2 d3 d4 d5 w x y z by (simp add: utf8EncodeCodePoint_def)
  with sc show ?thesis by blast
qed

lemma replacement_encoding:
  "isScalarValue 0xFFFD \<and> utf8EncodeCodePoint 0xFFFD = replacement"
  by (simp add: isScalarValue_def utf8EncodeCodePoint_def replacement_def)

text \<open>
  One step of the decoder: it either takes the encoding of one scalar value from the front
  of the input, or puts U+FFFD and goes on with a shorter input.
\<close>

lemma utf8ToString_step:
  "(\<exists>c tail. isScalarValue c \<and> b # bs = utf8EncodeCodePoint c @ tail \<and>
       length tail \<le> length bs \<and>
       utf8ToString (b # bs) = utf8EncodeCodePoint c @ utf8ToString tail) \<or>
   (\<exists>tail. length tail \<le> length bs \<and>
       utf8ToString (b # bs) = replacement @ utf8ToString tail)"
    (is "?V \<or> ?R")
proof -
  have valid: ?V
    if "isScalarValue c" "b # bs = utf8EncodeCodePoint c @ tail"
      "utf8ToString (b # bs) = utf8EncodeCodePoint c @ utf8ToString tail" for c tail
  proof -
    have "utf8EncodeCodePoint c \<noteq> []" by (simp add: utf8EncodeCodePoint_def)
    then have "length tail < length (b # bs)"
      using arg_cong [OF that(2), of length] by (cases "utf8EncodeCodePoint c") auto
    then have "length tail \<le> length bs" by simp
    with that show ?thesis by blast
  qed
  have repl: ?R if "utf8ToString (b # bs) = replacement @ utf8ToString tail"
      "length tail \<le> length bs" for tail
    using that by blast
  consider (ascii) "b < 0x80" | (two) "0xC2 \<le> b" "b \<le> 0xDF" | (three) "0xE0 \<le> b" "b \<le> 0xEF"
    | (four) "0xF0 \<le> b" "b \<le> 0xF4"
    | (stray) "0x80 \<le> b" "\<not> (0xC2 \<le> b \<and> b \<le> 0xF4)"
    by linarith
  then show ?thesis
  proof cases
    case ascii
    have "utf8ToString (b # bs) = utf8EncodeCodePoint b @ utf8ToString bs"
      using ascii decoded_one [OF ascii] by simp
    then show ?thesis using valid [of b bs] decoded_one [OF ascii] by simp
  next
    case stray
    then have "utf8ToString (b # bs) = replacement @ utf8ToString bs" by auto
    then show ?thesis using repl [of bs] by simp
  next
    case two
    show ?thesis
    proof (cases bs)
      case Nil
      then have "utf8ToString (b # bs) = replacement @ utf8ToString []" using two by simp
      then show ?thesis using repl [of "[]"] by simp
    next
      case (Cons c1 r1)
      show ?thesis
      proof (cases "isContinuation c1")
        case True
        obtain c where c: "isScalarValue c" "utf8EncodeCodePoint c = [b, c1]"
          using decoded_two [OF two True] by blast
        have "utf8ToString (b # bs) = utf8EncodeCodePoint c @ utf8ToString r1"
          unfolding Cons c(2) using utf8ToString_two [OF two True] by simp
        then show ?thesis using valid [of c r1] c Cons by simp
      next
        case False
        then have "utf8ToString (b # bs) = replacement @ utf8ToString bs"
          using two Cons by simp
        then show ?thesis using repl [of bs] by simp
      qed
    qed
  next
    case three
    have n2: "\<not> (0xC2 \<le> b \<and> b \<le> 0xDF)" "\<not> b < 0x80" using three by simp_all
    show ?thesis
    proof (cases bs)
      case Nil
      then have "utf8ToString (b # bs) = replacement @ utf8ToString []"
        using three n2 by simp
      then show ?thesis using repl [of "[]"] by simp
    next
      case (Cons c1 r1)
      show ?thesis
      proof (cases "secondByteOk b c1")
        case False
        then have "utf8ToString (b # bs) = replacement @ utf8ToString bs"
          using three n2 Cons by simp
        then show ?thesis using repl [of bs] by simp
      next
        case ok: True
        show ?thesis
        proof (cases r1)
          case Nil
          then have "utf8ToString (b # bs) = replacement @ utf8ToString []"
            using three n2 Cons ok by simp
          then show ?thesis using repl [of "[]"] by simp
        next
          case r: (Cons c2 r2)
          show ?thesis
          proof (cases "isContinuation c2")
            case True
            obtain c where c: "isScalarValue c" "utf8EncodeCodePoint c = [b, c1, c2]"
              using decoded_three [OF three ok True] by blast
            have "utf8ToString (b # bs) = utf8EncodeCodePoint c @ utf8ToString r2"
              unfolding Cons r c(2) using utf8ToString_three [OF three ok True] by simp
            then show ?thesis using valid [of c r2] c Cons r by simp
          next
            case False
            then have "utf8ToString (b # bs) = replacement @ utf8ToString r1"
              using three n2 Cons ok r by simp
            then show ?thesis using repl [of r1] Cons by simp
          qed
        qed
      qed
    qed
  next
    case four
    have n2: "\<not> (0xC2 \<le> b \<and> b \<le> 0xDF)" "\<not> b < 0x80" "\<not> (0xE0 \<le> b \<and> b \<le> 0xEF)"
      using four by simp_all
    show ?thesis
    proof (cases bs)
      case Nil
      then have "utf8ToString (b # bs) = replacement @ utf8ToString []"
        using four n2 by simp
      then show ?thesis using repl [of "[]"] by simp
    next
      case (Cons c1 r1)
      show ?thesis
      proof (cases "secondByteOk b c1")
        case False
        then have "utf8ToString (b # bs) = replacement @ utf8ToString bs"
          using four n2 Cons by simp
        then show ?thesis using repl [of bs] by simp
      next
        case ok: True
        show ?thesis
        proof (cases r1)
          case Nil
          then have "utf8ToString (b # bs) = replacement @ utf8ToString []"
            using four n2 Cons ok by simp
          then show ?thesis using repl [of "[]"] by simp
        next
          case r: (Cons c2 r2)
          show ?thesis
          proof (cases "isContinuation c2")
            case False
            then have "utf8ToString (b # bs) = replacement @ utf8ToString r1"
              using four n2 Cons ok r by simp
            then show ?thesis using repl [of r1] Cons by simp
          next
            case k2: True
            show ?thesis
            proof (cases r2)
              case Nil
              then have "utf8ToString (b # bs) = replacement @ utf8ToString []"
                using four n2 Cons ok r k2 by simp
              then show ?thesis using repl [of "[]"] by simp
            next
              case q: (Cons c3 r3)
              show ?thesis
              proof (cases "isContinuation c3")
                case True
                obtain c where c: "isScalarValue c" "utf8EncodeCodePoint c = [b, c1, c2, c3]"
                  using decoded_four [OF four ok k2 True] by blast
                have "utf8ToString (b # bs) = utf8EncodeCodePoint c @ utf8ToString r3"
                  unfolding Cons r q c(2) using utf8ToString_four [OF four ok k2 True] by simp
                then show ?thesis using valid [of c r3] c Cons r q by simp
              next
                case False
                then have "utf8ToString (b # bs) = replacement @ utf8ToString r2"
                  using four n2 Cons ok r k2 q by simp
                then show ?thesis using repl [of r2] Cons r by simp
              qed
            qed
          qed
        qed
      qed
    qed
  qed
qed

text \<open>
  So the decoded bytes are always the encoding of scalar values, and U+FFFD is among them
  unless the input is returned as it is.
\<close>

lemma utf8ToString_scalars:
  "\<exists>cps. (\<forall>c\<in>set cps. isScalarValue c) \<and>
      utf8ToString bs = concat (map utf8EncodeCodePoint cps) \<and>
      (bs = concat (map utf8EncodeCodePoint cps) \<or> 0xFFFD \<in> set cps)"
proof (induction "length bs" arbitrary: bs rule: less_induct)
  case less
  show ?case
  proof (cases bs)
    case Nil
    have "(\<forall>c\<in>set ([]::nat list). isScalarValue c) \<and>
      utf8ToString bs = concat (map utf8EncodeCodePoint []) \<and>
      bs = concat (map utf8EncodeCodePoint [])"
      using Nil by simp
    then show ?thesis by blast
  next
    case (Cons b rest)
    from utf8ToString_step [of b rest] consider
      (valid) c tail where "isScalarValue c" "b # rest = utf8EncodeCodePoint c @ tail"
        "length tail \<le> length rest"
        "utf8ToString (b # rest) = utf8EncodeCodePoint c @ utf8ToString tail"
      | (repl) tail where "length tail \<le> length rest"
        "utf8ToString (b # rest) = replacement @ utf8ToString tail"
      by blast
    then show ?thesis
    proof cases
      case valid
      have "length tail < length bs" using valid(3) Cons by simp
      from less [OF this] obtain cps where cps: "\<forall>c\<in>set cps. isScalarValue c"
        "utf8ToString tail = concat (map utf8EncodeCodePoint cps)"
        "tail = concat (map utf8EncodeCodePoint cps) \<or> 0xFFFD \<in> set cps"
        by blast
      have "(\<forall>x\<in>set (c # cps). isScalarValue x) \<and>
        utf8ToString bs = concat (map utf8EncodeCodePoint (c # cps)) \<and>
        (bs = concat (map utf8EncodeCodePoint (c # cps)) \<or> 0xFFFD \<in> set (c # cps))"
        using cps valid(1,2,4) Cons by auto
      then show ?thesis by blast
    next
      case repl
      have "length tail < length bs" using repl(1) Cons by simp
      from less [OF this] obtain cps where cps: "\<forall>c\<in>set cps. isScalarValue c"
        "utf8ToString tail = concat (map utf8EncodeCodePoint cps)"
        by blast
      have "(\<forall>x\<in>set (0xFFFD # cps). isScalarValue x) \<and>
        utf8ToString bs = concat (map utf8EncodeCodePoint (0xFFFD # cps)) \<and>
        0xFFFD \<in> set (0xFFFD # cps)"
        using cps repl(2) Cons replacement_encoding by simp
      then show ?thesis by blast
    qed
  qed
qed

text \<open>The four shapes of an encoded scalar value.\<close>

lemma encoding_shape:
  assumes "isScalarValue c"
  obtains (one) b where "utf8EncodeCodePoint c = [b]" "b < 0x80"
    | (two) b c1 where "utf8EncodeCodePoint c = [b, c1]" "0xC2 \<le> b" "b \<le> 0xDF"
        "isContinuation c1"
    | (three) b c1 c2 where "utf8EncodeCodePoint c = [b, c1, c2]" "0xE0 \<le> b" "b \<le> 0xEF"
        "secondByteOk b c1" "isContinuation c2"
    | (four) b c1 c2 c3 where "utf8EncodeCodePoint c = [b, c1, c2, c3]" "0xF0 \<le> b"
        "b \<le> 0xF4" "secondByteOk b c1" "isContinuation c2" "isContinuation c3"
proof -
  have "c < 0x110000" using assms by (auto simp: isScalarValue_def)
  then consider "c < 0x80" | "0x80 \<le> c" "c < 0x800" | "0x800 \<le> c" "c < 0x10000"
    | "0x10000 \<le> c" "c < 0x110000"
    by linarith
  then show ?thesis
  proof cases
    case 1
    then show ?thesis using one [of c] by (simp add: utf8EncodeCodePoint_def)
  next
    case 2
    then show ?thesis using encoding_two [of c] two by blast
  next
    case 3
    then show ?thesis using encoding_three [of c] assms three by blast
  next
    case 4
    then show ?thesis using encoding_four [of c] four by blast
  qed
qed

lemma secondByteOk_continuation: "secondByteOk b c1 \<Longrightarrow> isContinuation c1"
  by (auto simp: secondByteOk_def isContinuation_def split: if_splits)

lemma continuation_0x80: "isContinuation 0x80"
  by (simp add: isContinuation_def)

lemma secondByteOk_exists:
  assumes "0xE0 \<le> b" "b \<le> 0xF4"
  shows "\<exists>c1. secondByteOk b c1"
proof -
  have "secondByteOk b (if b = 0xE0 then 0xA0 else if b = 0xF0 then 0x90 else 0x80)"
    by (simp add: secondByteOk_def)
  then show ?thesis by blast
qed

text \<open>A byte that begins no encoded scalar value is replaced, and decoding goes on after it.\<close>

lemma utf8ToString_stray:
  assumes "\<forall>c. isScalarValue c \<longrightarrow> \<not> prefix [b] (utf8EncodeCodePoint c)"
  shows "utf8ToString (b # rest) = replacement @ utf8ToString rest"
proof -
  have n1: "\<not> b < 0x80"
  proof
    assume "b < 0x80"
    then show False using decoded_one [of b] assms by auto
  qed
  have n2: "\<not> (0xC2 \<le> b \<and> b \<le> 0xDF)"
  proof
    assume a: "0xC2 \<le> b \<and> b \<le> 0xDF"
    then obtain c where "isScalarValue c" "utf8EncodeCodePoint c = [b, 0x80]"
      using decoded_two [of b "0x80"] continuation_0x80 by blast
    then show False using assms by auto
  qed
  have n3: "\<not> (0xE0 \<le> b \<and> b \<le> 0xEF)"
  proof
    assume a: "0xE0 \<le> b \<and> b \<le> 0xEF"
    then obtain c1 where c1: "secondByteOk b c1" using secondByteOk_exists [of b] by auto
    obtain c where "isScalarValue c" "utf8EncodeCodePoint c = [b, c1, 0x80]"
      using decoded_three [of b c1 "0x80"] a c1 continuation_0x80 by blast
    then show False using assms by auto
  qed
  have n4: "\<not> (0xF0 \<le> b \<and> b \<le> 0xF4)"
  proof
    assume a: "0xF0 \<le> b \<and> b \<le> 0xF4"
    then obtain c1 where c1: "secondByteOk b c1" using secondByteOk_exists [of b] by auto
    obtain c where "isScalarValue c" "utf8EncodeCodePoint c = [b, c1, 0x80, 0x80]"
      using decoded_four [of b c1 "0x80" "0x80"] a c1 continuation_0x80 by blast
    then show False using assms by auto
  qed
  show ?thesis using n1 n2 n3 n4 by auto
qed

text \<open>
  The beginning of an encoded scalar value that the next byte does not continue, or that
  the end of the input cuts short, is replaced as a whole, and decoding goes on at that
  byte.
\<close>

lemma utf8ToString_truncated:
  assumes c: "isScalarValue c" and p: "strict_prefix p (utf8EncodeCodePoint c)" "p \<noteq> []"
    and r: "rest = [] \<or>
      (\<forall>c'. isScalarValue c' \<longrightarrow> \<not> prefix (p @ [hd rest]) (utf8EncodeCodePoint c'))"
  shows "utf8ToString (p @ rest) = replacement @ utf8ToString rest"
proof -
  have no: "\<not> prefix (p @ [nb]) (utf8EncodeCodePoint c')"
    if "rest = nb # r'" "isScalarValue c'" for nb r' c'
    using r that by auto
  from c show ?thesis
  proof (cases rule: encoding_shape)
    case (one b)
    then show ?thesis using p by (auto simp: strict_prefix_def prefix_Cons)
  next
    case (two b c1)
    then have pb: "p = [b]" using p by (auto simp: strict_prefix_def prefix_Cons)
    show ?thesis
    proof (cases rest)
      case Nil
      then show ?thesis using pb two by simp
    next
      case (Cons nb r')
      have "\<not> isContinuation nb"
      proof
        assume "isContinuation nb"
        then obtain c' where "isScalarValue c'" "utf8EncodeCodePoint c' = [b, nb]"
          using decoded_two [of b nb] two by blast
        then show False using no [OF Cons, of c'] pb by simp
      qed
      then show ?thesis using pb two Cons by simp
    qed
  next
    case (three b c1 c2)
    have nl: "\<not> b < 0x80" "\<not> (0xC2 \<le> b \<and> b \<le> 0xDF)" using three by simp_all
    from three p consider "p = [b]" | "p = [b, c1]"
      by (auto simp: strict_prefix_def prefix_Cons)
    then show ?thesis
    proof cases
      case 1
      show ?thesis
      proof (cases rest)
        case Nil
        then show ?thesis using 1 three nl by simp
      next
        case (Cons nb r')
        have "\<not> secondByteOk b nb"
        proof
          assume "secondByteOk b nb"
          then obtain c' where "isScalarValue c'" "utf8EncodeCodePoint c' = [b, nb, 0x80]"
            using decoded_three [of b nb "0x80"] three continuation_0x80 by blast
          then show False using no [OF Cons, of c'] 1 by simp
        qed
        then show ?thesis using 1 three nl Cons by simp
      qed
    next
      case 2
      show ?thesis
      proof (cases rest)
        case Nil
        then show ?thesis using 2 three nl by simp
      next
        case (Cons nb r')
        have "\<not> isContinuation nb"
        proof
          assume "isContinuation nb"
          then obtain c' where "isScalarValue c'" "utf8EncodeCodePoint c' = [b, c1, nb]"
            using decoded_three [of b c1 nb] three by blast
          then show False using no [OF Cons, of c'] 2 by simp
        qed
        then show ?thesis using 2 three nl Cons by simp
      qed
    qed
  next
    case (four b c1 c2 c3)
    have nl: "\<not> b < 0x80" "\<not> (0xC2 \<le> b \<and> b \<le> 0xDF)" "\<not> (0xE0 \<le> b \<and> b \<le> 0xEF)"
      using four by simp_all
    from four p consider "p = [b]" | "p = [b, c1]" | "p = [b, c1, c2]"
      by (auto simp: strict_prefix_def prefix_Cons)
    then show ?thesis
    proof cases
      case 1
      show ?thesis
      proof (cases rest)
        case Nil
        then show ?thesis using 1 four nl by simp
      next
        case (Cons nb r')
        have "\<not> secondByteOk b nb"
        proof
          assume "secondByteOk b nb"
          then obtain c' where "isScalarValue c'"
            "utf8EncodeCodePoint c' = [b, nb, 0x80, 0x80]"
            using decoded_four [of b nb "0x80" "0x80"] four continuation_0x80 by blast
          then show False using no [OF Cons, of c'] 1 by simp
        qed
        then show ?thesis using 1 four nl Cons by simp
      qed
    next
      case 2
      show ?thesis
      proof (cases rest)
        case Nil
        then show ?thesis using 2 four nl by simp
      next
        case (Cons nb r')
        have "\<not> isContinuation nb"
        proof
          assume "isContinuation nb"
          then obtain c' where "isScalarValue c'"
            "utf8EncodeCodePoint c' = [b, c1, nb, 0x80]"
            using decoded_four [of b c1 nb "0x80"] four continuation_0x80 by blast
          then show False using no [OF Cons, of c'] 2 by simp
        qed
        then show ?thesis using 2 four nl Cons by simp
      qed
    next
      case 3
      show ?thesis
      proof (cases rest)
        case Nil
        then show ?thesis using 3 four nl by simp
      next
        case (Cons nb r')
        have "\<not> isContinuation nb"
        proof
          assume "isContinuation nb"
          then obtain c' where "isScalarValue c'"
            "utf8EncodeCodePoint c' = [b, c1, c2, nb]"
            using decoded_four [of b c1 c2 nb] four by blast
          then show False using no [OF Cons, of c'] 3 by simp
        qed
        then show ?thesis using 3 four nl Cons by simp
      qed
    qed
  qed
qed

lemma utf8ToString_prefix:
  "\<forall>c\<in>set cps. isScalarValue c \<Longrightarrow>
   utf8ToString (concat (map utf8EncodeCodePoint cps) @ rest)
     = concat (map utf8EncodeCodePoint cps) @ utf8ToString rest"
proof (induction cps)
  case Nil
  show ?case by simp
next
  case (Cons c cps)
  then show ?case
    using utf8ToString_encode [of c "concat (map utf8EncodeCodePoint cps) @ rest"] by simp
qed

lemma encoding_lead:
  assumes "isScalarValue c" "prefix [b] (utf8EncodeCodePoint c)"
  shows "b < 0x80 \<or> (0xC2 \<le> b \<and> b \<le> 0xF4)"
  using assms(1)
proof (cases rule: encoding_shape)
  case (one b')
  then show ?thesis using assms(2) by simp
next
  case (two b' c1)
  then show ?thesis using assms(2) by simp
next
  case (three b' c1 c2)
  then show ?thesis using assms(2) by simp
next
  case (four b' c1 c2 c3)
  then show ?thesis using assms(2) by simp
qed

lemma encoding_tail:
  assumes "isScalarValue c" "prefix (p @ [nb]) (utf8EncodeCodePoint c)" "p \<noteq> []"
  shows "isContinuation nb"
proof -
  obtain x xs where p: "p = x # xs" using assms(3) by (cases p) auto
  have "nb \<in> set (tl (utf8EncodeCodePoint c))"
    using assms(2) unfolding p by (auto simp: prefix_def)
  moreover have "\<forall>y\<in>set (tl (utf8EncodeCodePoint c)). isContinuation y"
    using assms(1)
  proof (cases rule: encoding_shape)
    case (one b')
    then show ?thesis by simp
  next
    case (two b' c1)
    then show ?thesis by simp
  next
    case (three b' c1 c2)
    then show ?thesis using secondByteOk_continuation by simp
  next
    case (four b' c1 c2 c3)
    then show ?thesis using secondByteOk_continuation by simp
  qed
  ultimately show ?thesis by blast
qed

text \<open>The base64 characters are those that the decoder has a value for.\<close>

lemma base64Char_unbase64:
  assumes "unbase64 c = Some n"
  shows "n < 64 \<and> (c = base64Char n \<or> c = CHR ''-'' \<or> c = CHR ''_'')"
proof -
  let ?k = "of_char c :: nat"
  have id: "char_of ?k = c" by simp
  consider (upper) "65 \<le> ?k" "?k \<le> 90" | (lower) "97 \<le> ?k" "?k \<le> 122"
    | (digit) "48 \<le> ?k" "?k \<le> 57" | (plus) "c = CHR ''+''" | (minus) "c = CHR ''-''"
    | (slash) "c = CHR ''/''" | (under) "c = CHR ''_''"
    using assms by (auto simp: unbase64_def Let_def split: if_splits)
  then show ?thesis
  proof cases
    case upper
    then have n: "n = ?k - 65" using assms by (auto simp: unbase64_def Let_def split: if_splits)
    then have "65 + n = ?k" "n < 26" using upper by simp_all
    then show ?thesis using id by (simp add: base64Char_def)
  next
    case lower
    then have n: "n = ?k - 71" using assms by (auto simp: unbase64_def Let_def split: if_splits)
    then have "71 + n = ?k" "26 \<le> n" "n < 52" using lower by simp_all
    then show ?thesis using id by (simp add: base64Char_def)
  next
    case digit
    then have n: "n = ?k + 4" using assms by (auto simp: unbase64_def Let_def split: if_splits)
    then have "n - 4 = ?k" "52 \<le> n" "n < 62" using digit by simp_all
    then show ?thesis using id by (simp add: base64Char_def)
  next
    case plus
    then show ?thesis using assms by (simp add: unbase64_def base64Char_def)
  next
    case minus
    then show ?thesis using assms by (simp add: unbase64_def)
  next
    case slash
    then show ?thesis using assms by (simp add: unbase64_def base64Char_def)
  next
    case under
    then show ?thesis using assms by (simp add: unbase64_def)
  qed
qed

lemma isBase64Char_iff: "isBase64Char c \<longleftrightarrow> unbase64 c \<noteq> None"
proof
  assume "isBase64Char c"
  then consider n where "n < 64" "c = base64Char n" | "c = CHR ''-''" | "c = CHR ''_''"
    by (auto simp: isBase64Char_def)
  then show "unbase64 c \<noteq> None"
  proof cases
    case 1
    then show ?thesis using unbase64_base64Char(1) [of n] by simp
  qed (simp_all add: unbase64_def)
next
  assume "unbase64 c \<noteq> None"
  then obtain n where n: "unbase64 c = Some n" by auto
  from base64Char_unbase64 [OF n] show "isBase64Char c"
    by (auto simp: isBase64Char_def)
qed

lemma carries_bytes:
  assumes "carries s bytes"
  shows "bufferFromBase64 s = bytes"
proof -
  have small: "\<forall>b\<in>set bytes. b < 256"
    using assms by (simp add: carries_def list_all_iff)
  have f: "filter (\<lambda>c. unbase64 c \<noteq> None) (unpadded s) = filter isBase64Char (unpadded s)"
    by (rule filter_cong) (simp_all add: isBase64Char_iff)
  have "bufferFromBase64 s
      = decodeSextets (List.map_filter unbase64 (filter (\<lambda>c. unbase64 c \<noteq> None) (unpadded s)))"
    unfolding bufferFromBase64_def unpadded_def by (simp only: map_filter_legal)
  also have "\<dots> = decodeSextets (List.map_filter unbase64 (unpadded (encodeBytes bytes)))"
    using assms f by (simp add: carries_def)
  also have "\<dots> = bufferFromBase64 (encodeBytes bytes)"
    by (simp add: bufferFromBase64_def unpadded_def)
  also have "\<dots> = bytes" using small by (rule bufferFromBase64_encodeBytes)
  finally show ?thesis .
qed

lemma urlSafe_same: "bufferFromBase64 (map urlSafeToStandard s) = bufferFromBase64 s"
proof -
  have u: "unbase64 (urlSafeToStandard c) = unbase64 c" for c
    by (simp add: urlSafeToStandard_def unbase64_def)
  have p: "(urlSafeToStandard c \<noteq> CHR ''='') = (c \<noteq> CHR ''='')" for c
    by (simp add: urlSafeToStandard_def)
  have t: "takeWhile (\<lambda>c. c \<noteq> CHR ''='') (map urlSafeToStandard s)
      = map urlSafeToStandard (takeWhile (\<lambda>c. c \<noteq> CHR ''='') s)"
    by (induction s) (simp_all add: p)
  have m: "List.map_filter unbase64 (map urlSafeToStandard xs) = List.map_filter unbase64 xs" for xs
    by (simp add: List.map_filter_def filter_map comp_def u)
  show ?thesis unfolding bufferFromBase64_def t m ..
qed

lemma decode_text:
  "decodeGitHubContent s = map char_of (utf8ToString (bufferFromBase64 s))"
  by (simp add: decodeGitHubContent_def)

lemma decode_encoded:
  assumes "\<forall>b\<in>set bytes. b < 256"
  shows "decodeGitHubContent (encodeBytes bytes) = map char_of (utf8ToString bytes)"
  using bufferFromBase64_encodeBytes [OF assms] by (simp add: decodeGitHubContent_def)

lemma replacement_text: "utf8Text [0xFFFD] = map char_of replacement"
  using replacement_encoding by (simp add: utf8Text_def)

text \<open>
  Claim C10, as amended. \<open>decodeFileBody\<close> never fails: every input, valid base64 or not,
  has a decoded text, and the text is well-formed UTF-8. The text is that of the input's
  base64 characters before the first \<open>=\<close>; every other character is passed over, and the
  URL-safe characters read as \<open>+\<close> and \<open>/\<close>. When the input carries a sequence of bytes, the
  text is the sequence itself if it is well-formed UTF-8, and has U+FFFD in it otherwise.
  More exactly, after a well-formed beginning, a byte that begins no encoded scalar value
  is replaced by U+FFFD and decoding goes on after it; and the beginning of an encoded
  scalar value that the end of the input cuts short, or that the next byte does not
  continue, is replaced by one U+FFFD and decoding goes on at that byte.
\<close>

theorem decodeFileBody_never_fails:
  "decodeFileBody s \<noteq> Inl e \<and>
   decodeFileBody s = Inr (decodeGitHubContent s) \<and>
   decodeGitHubContent s =
     decodeGitHubContent (filter (\<lambda>c. unbase64 c \<noteq> None) (takeWhile (\<lambda>c. c \<noteq> CHR ''='') s)) \<and>
   decodeGitHubContent s = decodeGitHubContent (map urlSafeToStandard s) \<and>
   (\<exists>cps. list_all isScalarValue cps \<and> decodeFileBody s = Inr (utf8Text cps)) \<and>
   (carries s bytes \<longrightarrow>
      (\<exists>cps. list_all isScalarValue cps \<and> decodeFileBody s = Inr (utf8Text cps) \<and>
         (bytes = utf8Bytes cps \<or> 0xFFFD \<in> set cps))) \<and>
   (list_all isScalarValue codePoints \<and> carries s (utf8Bytes codePoints) \<longrightarrow>
      decodeFileBody s = Inr (utf8Text codePoints)) \<and>
   (list_all isScalarValue codePoints \<and>
    (\<forall>c. isScalarValue c \<longrightarrow> \<not> prefix [b] (utf8EncodeCodePoint c)) \<and>
    carries s (utf8Bytes codePoints @ b # rest) \<longrightarrow>
      decodeFileBody s =
        Inr (utf8Text codePoints @ utf8Text [0xFFFD] @ decodeGitHubContent (encodeBytes rest))) \<and>
   (list_all isScalarValue codePoints \<and> isScalarValue whole \<and>
    strict_prefix p (utf8EncodeCodePoint whole) \<and> p \<noteq> [] \<and>
    (rest = [] \<or>
     (\<forall>c. isScalarValue c \<longrightarrow> \<not> prefix (p @ [hd rest]) (utf8EncodeCodePoint c))) \<and>
    carries s (utf8Bytes codePoints @ p @ rest) \<longrightarrow>
      decodeFileBody s =
        Inr (utf8Text codePoints @ utf8Text [0xFFFD] @ decodeGitHubContent (encodeBytes rest)))"
proof -
  have c1: "decodeFileBody s \<noteq> Inl e" by (simp add: decodeFileBody_def)
  have c2: "decodeFileBody s = Inr (decodeGitHubContent s)" by (simp add: decodeFileBody_def)
  have c3: "decodeGitHubContent s =
     decodeGitHubContent (filter (\<lambda>c. unbase64 c \<noteq> None) (takeWhile (\<lambda>c. c \<noteq> CHR ''='') s))"
    unfolding decodeGitHubContent_def by (simp only: bufferFromBase64_lenient)
  have c4: "decodeGitHubContent s = decodeGitHubContent (map urlSafeToStandard s)"
    unfolding decodeGitHubContent_def by (simp only: urlSafe_same)
  have always: "\<exists>cps. list_all isScalarValue cps \<and>
      map char_of (utf8ToString bs) = utf8Text cps \<and>
      (bs = utf8Bytes cps \<or> 0xFFFD \<in> set cps)" for bs
    using utf8ToString_scalars [of bs] by (auto simp: list_all_iff utf8Text_def utf8Bytes_def)
  have c5: "\<exists>cps. list_all isScalarValue cps \<and> decodeFileBody s = Inr (utf8Text cps)"
    using always [of "bufferFromBase64 s"] unfolding c2 decode_text by blast
  have c6: "\<exists>cps. list_all isScalarValue cps \<and> decodeFileBody s = Inr (utf8Text cps) \<and>
         (bytes = utf8Bytes cps \<or> 0xFFFD \<in> set cps)"
    if "carries s bytes"
    using always [of bytes] unfolding c2 decode_text carries_bytes [OF that] by blast
  have c7: "decodeFileBody s = Inr (utf8Text codePoints)"
    if "list_all isScalarValue codePoints" "carries s (utf8Bytes codePoints)"
  proof -
    have "\<forall>c\<in>set codePoints. isScalarValue c" using that(1) by (simp add: list_all_iff)
    then have "utf8ToString (utf8Bytes codePoints) = utf8Bytes codePoints"
      unfolding utf8Bytes_def by (rule utf8ToString_wellformed)
    then show ?thesis
      unfolding c2 decode_text carries_bytes [OF that(2)]
      by (simp add: utf8Text_def utf8Bytes_def)
  qed
  have c8: "decodeFileBody s =
        Inr (utf8Text codePoints @ utf8Text [0xFFFD] @ decodeGitHubContent (encodeBytes rest))"
    if sc: "list_all isScalarValue codePoints"
      and stray: "\<forall>c. isScalarValue c \<longrightarrow> \<not> prefix [b] (utf8EncodeCodePoint c)"
      and car: "carries s (utf8Bytes codePoints @ b # rest)"
  proof -
    have all: "\<forall>c\<in>set codePoints. isScalarValue c" using sc by (simp add: list_all_iff)
    have small: "\<forall>x\<in>set rest. x < 256" using car by (simp add: carries_def list_all_iff)
    have "utf8ToString (utf8Bytes codePoints @ b # rest)
        = utf8Bytes codePoints @ replacement @ utf8ToString rest"
      unfolding utf8Bytes_def
      using utf8ToString_prefix [OF all, of "b # rest"] utf8ToString_stray [OF stray, of rest]
      by simp
    then show ?thesis
      unfolding c2 decode_encoded [OF small] replacement_text
      unfolding decode_text carries_bytes [OF car]
      by (simp add: utf8Text_def utf8Bytes_def)
  qed
  have c9: "decodeFileBody s =
        Inr (utf8Text codePoints @ utf8Text [0xFFFD] @ decodeGitHubContent (encodeBytes rest))"
    if sc: "list_all isScalarValue codePoints" and whole: "isScalarValue whole"
      and p: "strict_prefix p (utf8EncodeCodePoint whole)" "p \<noteq> []"
      and r: "rest = [] \<or>
        (\<forall>c. isScalarValue c \<longrightarrow> \<not> prefix (p @ [hd rest]) (utf8EncodeCodePoint c))"
      and car: "carries s (utf8Bytes codePoints @ p @ rest)"
  proof -
    have all: "\<forall>c\<in>set codePoints. isScalarValue c" using sc by (simp add: list_all_iff)
    have small: "\<forall>x\<in>set rest. x < 256" using car by (simp add: carries_def list_all_iff)
    have "utf8ToString (utf8Bytes codePoints @ p @ rest)
        = utf8Bytes codePoints @ replacement @ utf8ToString rest"
      unfolding utf8Bytes_def
      using utf8ToString_prefix [OF all, of "p @ rest"] utf8ToString_truncated [OF whole p r]
      by simp
    then show ?thesis
      unfolding c2 decode_encoded [OF small] replacement_text
      unfolding decode_text carries_bytes [OF car]
      by (simp add: utf8Text_def utf8Bytes_def)
  qed
  from c1 c2 c3 c4 c5 c6 c7 c8 c9 show ?thesis by blast
qed

text \<open>
  The theorem at four inputs: \<open>hi\<close> with a stop and marks in the middle; \<open>h\<close>, the byte FF
  and \<open>i\<close>; \<open>h\<close>, the first two bytes of the euro sign and \<open>i\<close>; and the same without the
  \<open>i\<close>.
\<close>

theorem decodeFileBody_never_fails_witness:
  "decodeFileBody ''aGk=!!aGk='' \<noteq> Inl DecodeError \<and>
   decodeFileBody ''aGk=!!aGk='' = Inr ''hi'' \<and>
   decodeGitHubContent ''aGk=!!aGk='' =
     decodeGitHubContent
       (filter (\<lambda>c. unbase64 c \<noteq> None) (takeWhile (\<lambda>c. c \<noteq> CHR ''='') ''aGk=!!aGk='')) \<and>
   isScalarValue 104 \<and> isScalarValue 105 \<and> utf8Text [104, 105] = ''hi'' \<and>
   carries ''aGk=!!aGk='' (utf8Bytes [104, 105]) \<and>
   carries ''aP9p'' (utf8Bytes [104] @ 0xFF # [105]) \<and>
   decodeFileBody ''aP9p'' = Inr (''h'' @ [CHR 0xEF, CHR 0xBF, CHR 0xBD] @ ''i'') \<and>
   isScalarValue 0x20AC \<and> strict_prefix [0xE2, 0x82] (utf8EncodeCodePoint 0x20AC) \<and>
   carries ''aOKCaQ=='' (utf8Bytes [104] @ [0xE2, 0x82] @ [105]) \<and>
   decodeFileBody ''aOKCaQ=='' = Inr (''h'' @ [CHR 0xEF, CHR 0xBF, CHR 0xBD] @ ''i'') \<and>
   carries ''aOKC'' (utf8Bytes [104] @ [0xE2, 0x82] @ []) \<and>
   decodeFileBody ''aOKC'' = Inr (''h'' @ [CHR 0xEF, CHR 0xBF, CHR 0xBD])"
proof -
  have s: "isScalarValue 104" "isScalarValue 105" "isScalarValue 0x20AC"
    by (simp_all add: isScalarValue_def)
  have l1: "list_all isScalarValue [104, 105]" and l2: "list_all isScalarValue [104]"
    using s by simp_all
  have hi: "utf8Text [104, 105] = ''hi''" and h: "utf8Text [104] = ''h''"
    by (simp_all add: utf8Text_def utf8EncodeCodePoint_def char_of_eq_iff)
  have fffd: "utf8Text [0xFFFD] = [CHR 0xEF, CHR 0xBF, CHR 0xBD]"
    by (simp add: utf8Text_def utf8EncodeCodePoint_def char_of_eq_iff)
  have b1: "utf8Bytes [104, 105] = [104, 105]" and b2: "utf8Bytes [104] = [104]"
    by (simp_all add: utf8Bytes_def utf8EncodeCodePoint_def)
  have i: "decodeGitHubContent (encodeBytes [105]) = ''i''"
    and n: "decodeGitHubContent (encodeBytes []) = []"
    by code_simp+
  have k1: "carries ''aGk=!!aGk='' (utf8Bytes [104, 105])" unfolding b1 by code_simp
  have k2: "carries ''aP9p'' (utf8Bytes [104] @ 0xFF # [105])" unfolding b2 by code_simp
  have k3: "carries ''aOKCaQ=='' (utf8Bytes [104] @ [0xE2, 0x82] @ [105])"
    unfolding b2 by code_simp
  have k4: "carries ''aOKC'' (utf8Bytes [104] @ [0xE2, 0x82] @ [])" unfolding b2 by code_simp
  have stray: "\<forall>c. isScalarValue c \<longrightarrow> \<not> prefix [0xFF] (utf8EncodeCodePoint c)"
    using encoding_lead [of _ "0xFF"] by auto
  have cutp: "strict_prefix [0xE2, 0x82] (utf8EncodeCodePoint 0x20AC)"
    by (simp add: utf8EncodeCodePoint_def strict_prefix_def)
  have ne: "[0xE2, 0x82] \<noteq> ([] :: nat list)" by simp
  have stop: "[105] = [] \<or>
     (\<forall>c. isScalarValue c \<longrightarrow> \<not> prefix ([0xE2, 0x82] @ [hd [105]]) (utf8EncodeCodePoint c))"
  proof -
    have "\<not> isContinuation 105" by (simp add: isContinuation_def)
    then show ?thesis using encoding_tail [of _ "[0xE2, 0x82]" 105] by auto
  qed
  have ended: "([] :: nat list) = [] \<or>
     (\<forall>c. isScalarValue c \<longrightarrow> \<not> prefix ([0xE2, 0x82] @ [hd []]) (utf8EncodeCodePoint c))"
    by simp
  note t1 = decodeFileBody_never_fails [of "''aGk=!!aGk=''" DecodeError "utf8Bytes [104, 105]" "[104, 105]"]
  from t1 have a1: "decodeFileBody ''aGk=!!aGk='' \<noteq> Inl DecodeError"
    and a3: "decodeGitHubContent ''aGk=!!aGk='' =
     decodeGitHubContent
       (filter (\<lambda>c. unbase64 c \<noteq> None) (takeWhile (\<lambda>c. c \<noteq> CHR ''='') ''aGk=!!aGk=''))"
    by blast+
  from t1 l1 k1 have a2: "decodeFileBody ''aGk=!!aGk='' = Inr (utf8Text [104, 105])"
    by blast
  note t2 = decodeFileBody_never_fails [where s = "''aP9p''" and codePoints = "[104]" and b = "0xFF"
      and rest = "[105]"]
  from t2 l2 stray k2 have a4: "decodeFileBody ''aP9p''
      = Inr (utf8Text [104] @ utf8Text [0xFFFD] @ decodeGitHubContent (encodeBytes [105]))"
    by blast
  note t3 = decodeFileBody_never_fails [where s = "''aOKCaQ==''" and codePoints = "[104]"
      and whole = "0x20AC" and p = "[0xE2, 0x82]" and rest = "[105]"]
  from t3 l2 s(3) cutp ne stop k3 have a5: "decodeFileBody ''aOKCaQ==''
      = Inr (utf8Text [104] @ utf8Text [0xFFFD] @ decodeGitHubContent (encodeBytes [105]))"
    by blast
  note t4 = decodeFileBody_never_fails [where s = "''aOKC''" and codePoints = "[104]"
      and whole = "0x20AC" and p = "[0xE2, 0x82]" and rest = "[]"]
  from t4 l2 s(3) cutp ne ended k4 have a6: "decodeFileBody ''aOKC''
      = Inr (utf8Text [104] @ utf8Text [0xFFFD] @ decodeGitHubContent (encodeBytes []))"
    by blast
  from a2 a4 a5 a6 have r: "decodeFileBody ''aGk=!!aGk='' = Inr ''hi''"
    "decodeFileBody ''aP9p'' = Inr (''h'' @ [CHR 0xEF, CHR 0xBF, CHR 0xBD] @ ''i'')"
    "decodeFileBody ''aOKCaQ=='' = Inr (''h'' @ [CHR 0xEF, CHR 0xBF, CHR 0xBD] @ ''i'')"
    "decodeFileBody ''aOKC'' = Inr (''h'' @ [CHR 0xEF, CHR 0xBF, CHR 0xBD])"
    unfolding hi h fffd i n by simp_all
  from a1 a3 r s hi k1 k2 k3 k4 cutp show ?thesis by (intro conjI)
qed

text \<open>
  The claim as stated fails at an input that is not valid base64: a text comes back, not a
  failure.
\<close>

theorem decodeFileBody_invalid_input:
  "\<not> validBase64 ''!'' \<and> decodeFileBody ''!'' = Inr [] \<and>
   \<not> validBase64 ''aGk=!!aGk='' \<and> decodeFileBody ''aGk=!!aGk='' = Inr ''hi''"
  by code_simp

section \<open>Enumerating files to a bounded depth\<close>

lemma findFilesRecursively_listing:
  assumes "0 < maxDepth" and "fetchGitHubContent w r p b = Inr (Listing items)"
  shows "findFilesRecursively w r p b f maxDepth =
        concat (map (\<lambda>item.
          if entry_type item = ''file'' \<and> f (entry_name item) (itemPathOf p (entry_name item))
            then [itemPathOf p (entry_name item)]
          else if entry_type item = ''dir'' \<and> 1 < maxDepth
            then findFilesRecursively w r (itemPathOf p (entry_name item)) b f (maxDepth - 1)
          else []) items)"
  using assms by (subst findFilesRecursively.simps) (simp add: Let_def)

lemma concat_map_if:
  "concat (map (\<lambda>x. if P x then [g x] else []) xs) = map g (filter P xs)"
  by (induction xs) simp_all

text \<open>
  Claim C7. With \<open>maxDepth \<le> 0\<close> the enumeration is empty whatever the remote holds. A
  failed fetch gives the empty sequence too. Over a listing, a file entry contributes its
  path when the predicate holds, and a directory entry contributes the enumeration below
  it at depth \<open>maxDepth - 1\<close> when \<open>maxDepth > 1\<close> and nothing otherwise; so at depth 1
  the result is the matching files of the listing alone.
\<close>

theorem findFilesRecursively_depth:
  "(maxDepth \<le> 0 \<longrightarrow> findFilesRecursively w r p b f maxDepth = []) \<and>
   (fetchGitHubContent w r p b = Inl e \<longrightarrow> findFilesRecursively w r p b f maxDepth = []) \<and>
   (0 < maxDepth \<longrightarrow> fetchGitHubContent w r p b = Inr (Listing items) \<longrightarrow>
      findFilesRecursively w r p b f maxDepth =
        concat (map (\<lambda>item.
          if entry_type item = ''file'' \<and> f (entry_name item) (itemPathOf p (entry_name item))
            then [itemPathOf p (entry_name item)]
          else if entry_type item = ''dir'' \<and> 1 < maxDepth
            then findFilesRecursively w r (itemPathOf p (entry_name item)) b f (maxDepth - 1)
          else []) items)) \<and>
   (fetchGitHubContent w r p b = Inr (Listing items) \<longrightarrow>
      findFilesRecursively w r p b f 1 =
        map (\<lambda>item. itemPathOf p (entry_name item))
          (filter (\<lambda>item. entry_type item = ''file'' \<and>
                     f (entry_name item) (itemPathOf p (entry_name item))) items))"
proof -
  have c1: "maxDepth \<le> 0 \<longrightarrow> findFilesRecursively w r p b f maxDepth = []"
    by (subst findFilesRecursively.simps) simp
  have c2: "fetchGitHubContent w r p b = Inl e \<longrightarrow> findFilesRecursively w r p b f maxDepth = []"
    by (subst findFilesRecursively.simps) simp
  have c4: "findFilesRecursively w r p b f 1 =
        map (\<lambda>item. itemPathOf p (entry_name item))
          (filter (\<lambda>item. entry_type item = ''file'' \<and>
                     f (entry_name item) (itemPathOf p (entry_name item))) items)"
    if l: "fetchGitHubContent w r p b = Inr (Listing items)"
  proof -
    have "findFilesRecursively w r p b f 1 =
        concat (map (\<lambda>item.
          if entry_type item = ''file'' \<and> f (entry_name item) (itemPathOf p (entry_name item))
            then [itemPathOf p (entry_name item)] else []) items)"
      using findFilesRecursively_listing [of 1, OF _ l] by (simp cong: if_cong)
    then show ?thesis by (simp only: concat_map_if)
  qed
  from c1 c2 c4 findFilesRecursively_listing [of maxDepth w r p b items f] show ?thesis
    by blast
qed

text \<open>The theorem on the tree \<open>a.ts\<close>, \<open>sub/b.ts\<close> at the depths 0, 1 and 2, and on a path that is not there.\<close>

theorem findFilesRecursively_depth_witness:
  "findFilesRecursively (sampleWorld twoLevelRemote) ''o/r'' [] ''main'' (\<lambda>n q. isSourceFile n) 0 = [] \<and>
   findFilesRecursively (sampleWorld twoLevelRemote) ''o/r'' [] ''main'' (\<lambda>n q. isSourceFile n) 1
     = [''a.ts''] \<and>
   findFilesRecursively (sampleWorld twoLevelRemote) ''o/r'' [] ''main'' (\<lambda>n q. isSourceFile n) 2
     = [''a.ts'', ''sub/b.ts''] \<and>
   findFilesRecursively (sampleWorld twoLevelRemote) ''o/r'' ''gone'' ''main''
     (\<lambda>n q. isSourceFile n) 2 = []"
proof -
  let ?w = "sampleWorld twoLevelRemote"
  let ?f = "\<lambda>n q. isSourceFile n"
  have root: "fetchGitHubContent ?w ''o/r'' [] ''main''
      = Inr (Listing [fileEntry ''a.ts'', dirEntry ''sub''])"
    by code_simp
  have sub: "fetchGitHubContent ?w ''o/r'' ''sub'' ''main'' = Inr (Listing [fileEntry ''b.ts''])"
    by code_simp
  have gone: "fetchGitHubContent ?w ''o/r'' ''gone'' ''main''
      = Inl ''Failed to fetch from GitHub: GitHub API error: 404 Not Found''"
    by code_simp
  have src: "isSourceFile ''a.ts''" "isSourceFile ''b.ts''" by code_simp+
  have d0: "findFilesRecursively ?w ''o/r'' [] ''main'' ?f 0 = []"
    using findFilesRecursively_depth [where maxDepth = 0 and w = ?w and r = "''o/r''"
        and p = "[]" and b = "''main''" and f = ?f] by simp
  have sub1: "findFilesRecursively ?w ''o/r'' ''sub'' ''main'' ?f 1 = [''sub/b.ts'']"
    using findFilesRecursively_depth [where w = ?w and r = "''o/r''" and p = "''sub''"
        and b = "''main''" and f = ?f and items = "[fileEntry ''b.ts'']"] sub src
    by (simp add: fileEntry_def itemPathOf_def)
  have d1: "findFilesRecursively ?w ''o/r'' [] ''main'' ?f 1 = [''a.ts'']"
    using findFilesRecursively_depth [where w = ?w and r = "''o/r''" and p = "[]"
        and b = "''main''" and f = ?f and items = "[fileEntry ''a.ts'', dirEntry ''sub'']"]
      root src
    by (simp add: fileEntry_def dirEntry_def itemPathOf_def)
  have d2: "findFilesRecursively ?w ''o/r'' [] ''main'' ?f 2 = [''a.ts'', ''sub/b.ts'']"
    using findFilesRecursively_depth [where maxDepth = 2 and w = ?w and r = "''o/r''"
        and p = "[]" and b = "''main''" and f = ?f
        and items = "[fileEntry ''a.ts'', dirEntry ''sub'']"] root src sub1
    by (simp add: fileEntry_def dirEntry_def itemPathOf_def)
  have g: "findFilesRecursively ?w ''o/r'' ''gone'' ''main'' ?f 2 = []"
    using findFilesRecursively_depth [where maxDepth = 2 and w = ?w and r = "''o/r''"
        and p = "''gone''" and b = "''main''" and f = ?f
        and e = "''Failed to fetch from GitHub: GitHub API error: 404 Not Found''"] gone
    by simp
  from d0 d1 d2 g show ?thesis by blast
qed

section \<open>The context of a match\<close>

lemma contextLines_window:
  assumes "index < length lines"
  shows "contextLines (int r) lines index = drop (index - r) (take (index + r + 1) lines)"
proof -
  have s: "nat (max 0 (int index - int r)) = index - r" by simp
  have e: "nat (min (int (length lines) - 1) (int index + int r) + 1)
      = min (length lines) (index + r + 1)"
    using assms by (auto simp: min_def nat_add_distrib)
  have "contextLines (int r) lines index
      = take (min (length lines) (index + r + 1) - (index - r)) (drop (index - r) lines)"
    unfolding contextLines_def Let_def slice_def s e ..
  also have "\<dots> = drop (index - r) (take (min (length lines) (index + r + 1)) lines)"
    by (simp add: drop_take)
  also have "take (min (length lines) (index + r + 1)) lines = take (index + r + 1) lines"
    by (simp add: min_def)
  finally show ?thesis .
qed

lemma window_interior1:
  assumes "0 < i" "i + 1 < length xs"
  shows "drop (i - 1) (take (i + 2) xs) = [xs ! (i - 1), xs ! i, xs ! (i + 1)]"
proof -
  obtain j where j: "i = Suc j" using assms(1) by (cases i) auto
  have "take (Suc (Suc (Suc j))) xs = take j xs @ [xs ! j, xs ! Suc j, xs ! Suc (Suc j)]"
    using assms(2) j by (simp add: take_Suc_conv_app_nth)
  then show ?thesis using j assms(2) by simp
qed

lemma window_interior2:
  assumes "2 \<le> i" "i + 2 < length xs"
  shows "drop (i - 2) (take (i + 3) xs)
    = [xs ! (i - 2), xs ! (i - 1), xs ! i, xs ! (i + 1), xs ! (i + 2)]"
proof -
  obtain j where j: "i = Suc (Suc j)" using assms(1) by (metis add_2_eq_Suc le_Suc_ex)
  have "take (Suc (Suc (Suc (Suc (Suc j))))) xs
      = take j xs @ [xs ! j, xs ! Suc j, xs ! Suc (Suc j), xs ! Suc (Suc (Suc j)),
                     xs ! Suc (Suc (Suc (Suc j)))]"
    using assms(2) j by (simp add: take_Suc_conv_app_nth)
  then show ?thesis using j assms(2) by (simp add: numeral_3_eq_3)
qed

text \<open>A query found in a line is found in the whole content.\<close>

lemma str_includes_iff: "str_includes s q \<longleftrightarrow> (\<exists>a b. s = a @ q @ b)"
proof (induction s)
  case Nil
  show ?case by auto
next
  case (Cons x xs)
  show ?case
  proof
    assume "str_includes (x # xs) q"
    then consider "prefix q (x # xs)" | "str_includes xs q" by auto
    then show "\<exists>a b. x # xs = a @ q @ b"
    proof cases
      case 1
      then obtain b where "x # xs = q @ b" by (auto simp: prefix_def)
      then have "x # xs = [] @ q @ b" by simp
      then show ?thesis by blast
    next
      case 2
      then obtain a b where "xs = a @ q @ b" using Cons.IH by blast
      then have "x # xs = (x # a) @ q @ b" by simp
      then show ?thesis by blast
    qed
  next
    assume "\<exists>a b. x # xs = a @ q @ b"
    then obtain a b where ab: "x # xs = a @ q @ b" by blast
    show "str_includes (x # xs) q"
    proof (cases a)
      case Nil
      then have "prefix q (x # xs)" using ab by (simp add: prefix_def)
      then show ?thesis by simp
    next
      case (Cons y ys)
      then have "xs = ys @ q @ b" using ab by simp
      then have "str_includes xs q" using Cons.IH by blast
      then show ?thesis by simp
    qed
  qed
qed

lemma split_on_nonempty: "split_on c s \<noteq> []"
  by (induction s) (auto split: list.splits)

lemma join_Cons_head: "join sep ((x # p) # ps) = x # join sep (p # ps)"
  by (cases ps) simp_all

lemma join_split_on: "join [c] (split_on c s) = s"
proof (induction s)
  case Nil
  show ?case by simp
next
  case (Cons x xs)
  obtain p ps where ps: "split_on c xs = p # ps"
    using split_on_nonempty [of c xs] by (cases "split_on c xs") auto
  show ?case
  proof (cases "x = c")
    case True
    then show ?thesis using Cons.IH ps by simp
  next
    case False
    then show ?thesis using Cons.IH ps by (simp add: join_Cons_head)
  qed
qed

lemma join_part: "l \<in> set ls \<Longrightarrow> \<exists>a b. join sep ls = a @ l @ b"
proof (induction sep ls rule: join.induct)
  case (1 sep)
  then show ?case by simp
next
  case (2 sep x)
  then have "join sep [x] = [] @ l @ []" by simp
  then show ?case by blast
next
  case (3 sep x y ys)
  show ?case
  proof (cases "l = x")
    case True
    then have "join sep (x # y # ys) = [] @ l @ (sep @ join sep (y # ys))" by simp
    then show ?thesis by blast
  next
    case False
    then have "l \<in> set (y # ys)" using "3.prems" by simp
    then obtain a b where "join sep (y # ys) = a @ l @ b" using "3.IH" by blast
    then have "join sep (x # y # ys) = (x @ sep @ a) @ l @ b" by simp
    then show ?thesis by blast
  qed
qed

lemma line_match_in_content:
  assumes "l \<in> set (split_on c content)" and "lineMatches l query"
  shows "str_includes (toLowerCase content) (toLowerCase query)"
proof -
  obtain a b where "join [c] (split_on c content) = a @ l @ b"
    using join_part [OF assms(1)] by blast
  then have c: "content = a @ l @ b" by (simp add: join_split_on)
  obtain u v where "toLowerCase l = u @ toLowerCase query @ v"
    using assms(2) by (auto simp: lineMatches_def str_includes_iff)
  then have "toLowerCase content
      = (toLowerCase a @ u) @ toLowerCase query @ (v @ toLowerCase b)"
    using c by (simp add: toLowerCase_def)
  then show ?thesis unfolding str_includes_iff by blast
qed

lemma searchExampleMatches_lines:
  "searchExampleMatches fileContent query =
     (let lines = split_on newline fileContent
      in [''Line '' @ show_nat (index + 1) @ '':'' @ [newline]
            @ join [newline] (contextLines 2 lines index).
          index \<leftarrow> [0..<length lines], lineMatches (lines ! index) query])"
proof (cases "str_includes (toLowerCase fileContent) (toLowerCase query)")
  case True
  then show ?thesis by (simp add: searchExampleMatches_def)
next
  case False
  have "\<not> lineMatches (split_on newline fileContent ! index) query"
    if "index < length (split_on newline fileContent)" for index
    using line_match_in_content [of "split_on newline fileContent ! index" newline fileContent query]
      that False by auto
  then have "filter (\<lambda>index. lineMatches (split_on newline fileContent ! index) query)
      [0..<length (split_on newline fileContent)] = []"
    by (auto simp: filter_empty_conv)
  then show ?thesis using False
    by (simp add: searchExampleMatches_def Let_def concat_map_if)
qed


lemma matches_form:
  assumes "\<And>index. index < length lines \<Longrightarrow> ctx index = ctx' index"
  shows "[fmt index (ctx index). index \<leftarrow> [0..<length lines], P index]
       = [fmt index (ctx' index). index \<leftarrow> [0..<length lines], P index]"
proof -
  have "map (\<lambda>index. if P index then [fmt index (ctx index)] else []) [0..<length lines]
      = map (\<lambda>index. if P index then [fmt index (ctx' index)] else []) [0..<length lines]"
    by (rule map_cong) (use assms in auto)
  then show ?thesis by (rule arg_cong [where f = concat])
qed

text \<open>
  Claim C5, as amended. For every content and query, each match of \<open>search-docs\<close> and of
  \<open>search-source\<close> carries the lines from one before the matching line to one after it,
  and each match of the repository search of \<open>search-examples\<close> carries the lines from two
  before to two after, both cut at the ends of the content. Away from the ends these are
  three and five lines.
\<close>

theorem keyword_search_context_windows:
  "searchDocumentationMatches content query =
     [''Line '' @ show_nat (index + 1) @ '': ''
        @ join [newline] (drop (index - 1) (take (index + 2) (split_on newline content))).
      index \<leftarrow> [0..<length (split_on newline content)],
      lineMatches (split_on newline content ! index) query] \<and>
   searchSourceMatches content query =
     [''Line '' @ show_nat (index + 1) @ '': ''
        @ join [newline] (drop (index - 1) (take (index + 2) (split_on newline content))).
      index \<leftarrow> [0..<length (split_on newline content)],
      lineMatches (split_on newline content ! index) query] \<and>
   searchExampleMatches content query =
     [''Line '' @ show_nat (index + 1) @ '':'' @ [newline]
        @ join [newline] (drop (index - 2) (take (index + 3) (split_on newline content))).
      index \<leftarrow> [0..<length (split_on newline content)],
      lineMatches (split_on newline content ! index) query] \<and>
   (0 < i \<and> i + 1 < length lines \<longrightarrow>
      contextLines 1 lines i = [lines ! (i - 1), lines ! i, lines ! (i + 1)]) \<and>
   (2 \<le> i \<and> i + 2 < length lines \<longrightarrow>
      contextLines 2 lines i
        = [lines ! (i - 2), lines ! (i - 1), lines ! i, lines ! (i + 1), lines ! (i + 2)])"
proof -
  let ?lines = "split_on newline content"
  have w1: "contextLines 1 xs index = drop (index - 1) (take (index + 2) xs)"
    if "index < length xs" for xs index
    using contextLines_window [OF that, of 1] by simp
  have w2: "contextLines 2 xs index = drop (index - 2) (take (index + 3) xs)"
    if "index < length xs" for xs index
    using contextLines_window [OF that, of 2] by (simp add: numeral_3_eq_3)
  have docs: "searchDocumentationMatches content query =
     [''Line '' @ show_nat (index + 1) @ '': ''
        @ join [newline] (drop (index - 1) (take (index + 2) ?lines)).
      index \<leftarrow> [0..<length ?lines], lineMatches (?lines ! index) query]"
    unfolding searchDocumentationMatches_def Let_def
    by (rule matches_form
        [where fmt = "\<lambda>index c. ''Line '' @ show_nat (index + 1) @ '': '' @ join [newline] c"])
      (rule w1)
  have src: "searchSourceMatches content query =
     [''Line '' @ show_nat (index + 1) @ '': ''
        @ join [newline] (drop (index - 1) (take (index + 2) ?lines)).
      index \<leftarrow> [0..<length ?lines], lineMatches (?lines ! index) query]"
    unfolding searchSourceMatches_def Let_def
    by (rule matches_form
        [where fmt = "\<lambda>index c. ''Line '' @ show_nat (index + 1) @ '': '' @ join [newline] c"])
      (rule w1)
  have ex: "searchExampleMatches content query =
     [''Line '' @ show_nat (index + 1) @ '':'' @ [newline]
        @ join [newline] (drop (index - 2) (take (index + 3) ?lines)).
      index \<leftarrow> [0..<length ?lines], lineMatches (?lines ! index) query]"
    unfolding searchExampleMatches_lines Let_def
    by (rule matches_form
        [where fmt = "\<lambda>index c. ''Line '' @ show_nat (index + 1) @ '':'' @ [newline]
                        @ join [newline] c"])
      (rule w2)
  have i1: "0 < i \<and> i + 1 < length lines \<longrightarrow>
      contextLines 1 lines i = [lines ! (i - 1), lines ! i, lines ! (i + 1)]"
    using w1 [of i lines] window_interior1 [of i lines] by simp
  have i2: "2 \<le> i \<and> i + 2 < length lines \<longrightarrow>
      contextLines 2 lines i
        = [lines ! (i - 2), lines ! (i - 1), lines ! i, lines ! (i + 1), lines ! (i + 2)]"
    using w2 [of i lines] window_interior2 [of i lines] by simp
  from docs src ex i1 i2 show ?thesis by blast
qed

text \<open>The theorem at the third of five lines, and the window at the first of two.\<close>

theorem keyword_search_context_windows_witness:
  "contextLines 1 [''a'', ''b'', ''q'', ''d'', ''e''] 2 = [''b'', ''q'', ''d''] \<and>
   contextLines 2 [''a'', ''b'', ''q'', ''d'', ''e''] 2 = [''a'', ''b'', ''q'', ''d'', ''e''] \<and>
   contextLines 1 [''q'', ''d''] 0 = [''q'', ''d''] \<and>
   searchSourceMatches fiveLines ''Q'' = [''Line 3: b'' @ [newline] @ ''q'' @ [newline] @ ''d'']"
proof -
  have a: "contextLines 1 [''a'', ''b'', ''q'', ''d'', ''e''] 2 = [''b'', ''q'', ''d'']"
    "contextLines 2 [''a'', ''b'', ''q'', ''d'', ''e''] 2 = [''a'', ''b'', ''q'', ''d'', ''e'']"
    using keyword_search_context_windows
      [where i = 2 and lines = "[''a'', ''b'', ''q'', ''d'', ''e'']"]
    by simp_all
  have b: "contextLines 1 [''q'', ''d''] 0 = [''q'', ''d'']" by code_simp
  have c: "searchSourceMatches fiveLines ''Q''
      = [''Line 3: b'' @ [newline] @ ''q'' @ [newline] @ ''d'']" by code_simp
  from a b c show ?thesis by blast
qed

text \<open>
  The claim as stated fails for \<open>search-examples\<close>: a match in the third of five lines
  carries all five.
\<close>

theorem searchExampleMatches_two_lines_each_side:
  "searchExampleMatches fiveLines ''q''
     = [''Line 3:'' @ [newline] @ ''a'' @ [newline] @ ''b'' @ [newline] @ ''q'' @ [newline]
          @ ''d'' @ [newline] @ ''e''] \<and>
   searchDocumentationMatches fiveLines ''q''
     = [''Line 3: b'' @ [newline] @ ''q'' @ [newline] @ ''d''] \<and>
   split_on newline fiveLines = [''a'', ''b'', ''q'', ''d'', ''e''] \<and>
   contextLines 2 (split_on newline fiveLines) 2 = [''a'', ''b'', ''q'', ''d'', ''e''] \<and>
   contextLines 2 (split_on newline fiveLines) 2 \<noteq> [''b'', ''q'', ''d'']"
  by code_simp

section \<open>The limits of the repository searches\<close>

lemma length_concat_bound:
  assumes "\<And>x. length (f x) \<le> n"
  shows "length (concat (map f xs)) \<le> n * length xs"
proof (induction xs)
  case Nil
  show ?case by simp
next
  case (Cons x xs)
  have "length (concat (map f (x # xs))) = length (f x) + length (concat (map f xs))" by simp
  also have "\<dots> \<le> n + n * length xs" using assms [of x] Cons.IH by linarith
  finally show ?case by simp
qed

lemma concat_map_concat_map:
  "concat (map (\<lambda>x. concat (map g (f x))) xs) = concat (map g (concat (map f xs)))"
  by (induction xs) simp_all

lemma searchSourceFile_entry:
  assumes "(file', matches) \<in> set (searchSourceFile w config query file)"
  shows "file' = file \<and> matches \<noteq> [] \<and> length matches \<le> 5"
  using assms
  by (auto simp: searchSourceFile_def Let_def
      split: sum.splits json_body.splits if_splits)

lemma searchExampleFile_entry:
  assumes "(file', matches) \<in> set (searchExampleFile w r b query file)"
  shows "file' = file \<and> matches \<noteq> [] \<and> length matches \<le> 3"
  using assms
  by (auto simp: searchExampleFile_def Let_def
      split: sum.splits json_body.splits if_splits)

lemma searchSourceFile_length: "length (searchSourceFile w config query file) \<le> 1"
  by (simp add: searchSourceFile_def Let_def split: sum.splits json_body.splits)

lemma searchExampleFile_length: "length (searchExampleFile w r b query file) \<le> 1"
  by (simp add: searchExampleFile_def Let_def split: sum.splits json_body.splits)

text \<open>
  Claim C6, as amended. The limits hold for each search path, not for the call: for one
  path \<open>search-source\<close> fetches and searches at most 20 files and the repository examples
  search at most 15, so a call visits at most 20 (or 15) times the number of its paths.
  The results come from exactly the visits, in their order: one visit of a file gives no
  result entry or one, and every entry keeps at least one and at most 5 (or 3) matches. The
  limit on the matches is thus a limit for each entry, that is for each file under each
  search path: a file that two search paths reach is visited twice and can have two entries.
\<close>

theorem search_limits:
  "length (sourceCandidates w config searchPath) \<le> 20 \<and>
   length (searchSourceVisited w config paths) \<le> 20 * length (searchPathsOf config paths) \<and>
   searchSourceResults w config query paths
     = concat (map (searchSourceFile w config query) (searchSourceVisited w config paths)) \<and>
   (\<forall>(file, matches) \<in> set (searchSourceResults w config query paths).
      file \<in> set (searchSourceVisited w config paths) \<and> matches \<noteq> [] \<and> length matches \<le> 5) \<and>
   length (exampleCandidates w r b ep0) \<le> 15 \<and>
   length (searchRepoExamplesVisited w r b eps) \<le> 15 * length eps \<and>
   searchRepoExamples w r b eps query
     = concat (map (searchExampleFile w r b query) (searchRepoExamplesVisited w r b eps)) \<and>
   (\<forall>(file, matches) \<in> set (searchRepoExamples w r b eps query).
      file \<in> set (searchRepoExamplesVisited w r b eps) \<and> matches \<noteq> [] \<and>
      length matches \<le> 3) \<and>
   length (searchSourceFile w config query visited) \<le> 1 \<and>
   length (searchSourceResults w config query paths)
     \<le> length (searchSourceVisited w config paths) \<and>
   length (searchExampleFile w r b query visited) \<le> 1 \<and>
   length (searchRepoExamples w r b eps query)
     \<le> length (searchRepoExamplesVisited w r b eps)"
proof -
  have s1: "length (sourceCandidates w config sp) \<le> 20" for sp
    by (simp add: sourceCandidates_def)
  have s2: "length (searchSourceVisited w config paths) \<le> 20 * length (searchPathsOf config paths)"
    unfolding searchSourceVisited_def by (rule length_concat_bound) (rule s1)
  have s3: "searchSourceResults w config query paths
     = concat (map (searchSourceFile w config query) (searchSourceVisited w config paths))"
    unfolding searchSourceResults_def searchSourceVisited_def
    by (rule concat_map_concat_map)
  have s4: "\<forall>(file, matches) \<in> set (searchSourceResults w config query paths).
      file \<in> set (searchSourceVisited w config paths) \<and> matches \<noteq> [] \<and> length matches \<le> 5"
    unfolding s3 using searchSourceFile_entry by fastforce
  have e1: "length (exampleCandidates w r b ep) \<le> 15" for ep
    by (simp add: exampleCandidates_def)
  have e2: "length (searchRepoExamplesVisited w r b eps) \<le> 15 * length eps"
    unfolding searchRepoExamplesVisited_def by (rule length_concat_bound) (rule e1)
  have e3: "searchRepoExamples w r b eps query
     = concat (map (searchExampleFile w r b query) (searchRepoExamplesVisited w r b eps))"
    unfolding searchRepoExamples_def searchRepoExamplesVisited_def
    by (rule concat_map_concat_map)
  have e4: "\<forall>(file, matches) \<in> set (searchRepoExamples w r b eps query).
      file \<in> set (searchRepoExamplesVisited w r b eps) \<and> matches \<noteq> [] \<and>
      length matches \<le> 3"
    unfolding e3 using searchExampleFile_entry by fastforce
  have s5: "length (searchSourceResults w config query paths)
     \<le> length (searchSourceVisited w config paths)"
    unfolding s3
    using length_concat_bound [of "searchSourceFile w config query" 1, OF searchSourceFile_length]
    by simp
  have e5: "length (searchRepoExamples w r b eps query)
     \<le> length (searchRepoExamplesVisited w r b eps)"
    unfolding e3
    using length_concat_bound [of "searchExampleFile w r b query" 1, OF searchExampleFile_length]
    by simp
  have s6: "length (searchSourceFile w config query visited) \<le> 1"
    by (rule searchSourceFile_length)
  have e6: "length (searchExampleFile w r b query visited) \<le> 1"
    by (rule searchExampleFile_length)
  from s1 s2 s3 s4 have first: "length (sourceCandidates w config searchPath) \<le> 20 \<and>
   length (searchSourceVisited w config paths) \<le> 20 * length (searchPathsOf config paths) \<and>
   searchSourceResults w config query paths
     = concat (map (searchSourceFile w config query) (searchSourceVisited w config paths)) \<and>
   (\<forall>(file, matches) \<in> set (searchSourceResults w config query paths).
      file \<in> set (searchSourceVisited w config paths) \<and> matches \<noteq> [] \<and> length matches \<le> 5)"
    by blast
  from e1 e2 e3 e4 have second: "length (exampleCandidates w r b ep0) \<le> 15 \<and>
   length (searchRepoExamplesVisited w r b eps) \<le> 15 * length eps \<and>
   searchRepoExamples w r b eps query
     = concat (map (searchExampleFile w r b query) (searchRepoExamplesVisited w r b eps)) \<and>
   (\<forall>(file, matches) \<in> set (searchRepoExamples w r b eps query).
      file \<in> set (searchRepoExamplesVisited w r b eps) \<and> matches \<noteq> [] \<and>
      length matches \<le> 3)"
    by blast
  from first second s6 s5 e6 e5 show ?thesis by (intro conjI) (elim conjE, assumption)+
qed



text \<open>
  The theorem on the tree \<open>a.ts\<close>, \<open>sub/b.ts\<close>, searched from the root: \<open>a.ts\<close> has six matching
  lines and keeps five.
\<close>

theorem search_limits_witness:
  "searchSourceVisited (sampleWorld twoLevelRemote) sampleConfig (Some [[]]) = [''a.ts'', ''sub/b.ts''] \<and>
   length (searchSourceVisited (sampleWorld twoLevelRemote) sampleConfig (Some [[]])) \<le> 20 * 1 \<and>
   searchSourceResults (sampleWorld twoLevelRemote) sampleConfig ''Q'' (Some [[]])
     = [(''a.ts'', [''Line 1: q'' @ [newline] @ ''q'',
                    ''Line 2: q'' @ [newline] @ ''q'' @ [newline] @ ''q'',
                    ''Line 3: q'' @ [newline] @ ''q'' @ [newline] @ ''q'',
                    ''Line 4: q'' @ [newline] @ ''q'' @ [newline] @ ''q'',
                    ''Line 5: q'' @ [newline] @ ''q'' @ [newline] @ ''q''])] \<and>
   length (searchSourceMatches (decodeGitHubContent ''cQpxCnEKcQpxCnE='') ''Q'') = 6 \<and>
   length (snd (hd (searchSourceResults (sampleWorld twoLevelRemote) sampleConfig ''Q''
      (Some [[]])))) \<le> 5"
proof -
  let ?w = "sampleWorld twoLevelRemote"
  have v: "searchSourceVisited ?w sampleConfig (Some [[]]) = [''a.ts'', ''sub/b.ts'']"
    by code_simp
  have r: "searchSourceResults ?w sampleConfig ''Q'' (Some [[]])
     = [(''a.ts'', [''Line 1: q'' @ [newline] @ ''q'',
                    ''Line 2: q'' @ [newline] @ ''q'' @ [newline] @ ''q'',
                    ''Line 3: q'' @ [newline] @ ''q'' @ [newline] @ ''q'',
                    ''Line 4: q'' @ [newline] @ ''q'' @ [newline] @ ''q'',
                    ''Line 5: q'' @ [newline] @ ''q'' @ [newline] @ ''q''])]"
    by code_simp
  have six: "length (searchSourceMatches (decodeGitHubContent ''cQpxCnEKcQpxCnE='') ''Q'') = 6"
    by code_simp
  have p: "length (searchPathsOf sampleConfig (Some [[]])) = 1"
    by (simp add: searchPathsOf_def)
  from search_limits [of ?w sampleConfig "[]" "Some [[]]" "''Q''"] have
    b: "length (searchSourceVisited ?w sampleConfig (Some [[]]))
          \<le> 20 * length (searchPathsOf sampleConfig (Some [[]]))"
    and m: "\<forall>(file, matches) \<in> set (searchSourceResults ?w sampleConfig ''Q'' (Some [[]])).
      file \<in> set (searchSourceVisited ?w sampleConfig (Some [[]])) \<and> matches \<noteq> [] \<and>
      length matches \<le> 5"
    by blast+
  have "hd (searchSourceResults ?w sampleConfig ''Q'' (Some [[]]))
      \<in> set (searchSourceResults ?w sampleConfig ''Q'' (Some [[]]))"
    unfolding r by simp
  with m have "length (snd (hd (searchSourceResults ?w sampleConfig ''Q'' (Some [[]])))) \<le> 5"
    by (auto simp: case_prod_beta)
  with v r six b p show ?thesis by simp
qed

text \<open>
  A call whose two search paths are both the root visits \<open>a.ts\<close> twice, and the result has
  two entries for it, of five matches each.
\<close>

lemma searchSourceResults_file_twice:
  "searchSourceVisited (sampleWorld twoLevelRemote) sampleConfig (Some [[], []])
     = [''a.ts'', ''sub/b.ts'', ''a.ts'', ''sub/b.ts''] \<and>
   map (\<lambda>(file, matches). (file, length matches))
     (searchSourceResults (sampleWorld twoLevelRemote) sampleConfig ''Q'' (Some [[], []]))
     = [(''a.ts'', 5), (''a.ts'', 5)]"
  by code_simp

text \<open>
  The claim as stated fails for a call with two search paths: eleven files under each are
  all fetched, twenty-two in the one call.
\<close>

theorem searchSourceVisited_two_paths:
  "searchPathsOf sampleConfig None = [''a'', ''b''] \<and>
   length (sourceCandidates (sampleWorld wideRemote) sampleConfig ''a'') = 11 \<and>
   length (sourceCandidates (sampleWorld wideRemote) sampleConfig ''b'') = 11 \<and>
   length (searchSourceVisited (sampleWorld wideRemote) sampleConfig None) = 22 \<and>
   \<not> length (searchSourceVisited (sampleWorld wideRemote) sampleConfig None) \<le> 20"
  by code_simp

section \<open>Adding a repository to the registry\<close>

lemma map_of_snoc_absent:
  assumes "map_of xs k = None"
  shows "map_of (xs @ [(k, v)]) = (map_of xs)(k \<mapsto> v)"
proof
  fix x
  show "map_of (xs @ [(k, v)]) x = ((map_of xs)(k \<mapsto> v)) x"
    using assms by (cases "map_of xs x") (auto simp: map_add_def)
qed

text \<open>
  What the handler does at every registry and key. When \<open>currentRepoData[key]\<close> finds an own
  property or an inherited member, \<open>add-repository\<close> answers that the key already exists
  and the world is unchanged: nothing is written. Otherwise the whole document is written
  once, and it is the old registry with the new entry added; loading it again gives the old
  mapping plus the entry. A second call with the same key is a conflict and changes
  nothing.
\<close>

lemma addRepository_own_or_missing:
  "(getProperty (map_of (loadRepoData w)) (arg_key args) \<noteq> Missing \<longrightarrow>
      addRepository w args = (alreadyExistsText (arg_key args), w)) \<and>
   (getProperty (map_of (loadRepoData w)) (arg_key args) = Missing \<longrightarrow>
      addRepository w args =
        (addedText args,
         w\<lparr>repodata_json := Some (loadRepoData w @ [(arg_key args, newRepo args)]),
           written := written w @ [loadRepoData w @ [(arg_key args, newRepo args)]]\<rparr>) \<and>
      map_of (loadRepoData (snd (addRepository w args)))
        = (map_of (loadRepoData w))(arg_key args \<mapsto> newRepo args)) \<and>
   (arg_key args' = arg_key args \<longrightarrow>
      addRepository (snd (addRepository w args)) args' =
        (alreadyExistsText (arg_key args), snd (addRepository w args)))"
proof -
  have present: "addRepository w args = (alreadyExistsText (arg_key args), w)"
    if "getProperty (map_of (loadRepoData w)) (arg_key args) \<noteq> Missing" for w args
    using that
    by (cases "getProperty (map_of (loadRepoData w)) (arg_key args)")
      (simp_all add: addRepository_def Let_def)
  have absent: "addRepository w args =
        (addedText args,
         w\<lparr>repodata_json := Some (loadRepoData w @ [(arg_key args, newRepo args)]),
           written := written w @ [loadRepoData w @ [(arg_key args, newRepo args)]]\<rparr>)"
    if "getProperty (map_of (loadRepoData w)) (arg_key args) = Missing"
    using that by (simp add: addRepository_def Let_def)
  have none: "map_of (loadRepoData w) (arg_key args) = None"
    if "getProperty (map_of (loadRepoData w)) (arg_key args) = Missing"
    using that by (auto simp: getProperty_def split: option.splits if_splits)
  have after: "map_of (loadRepoData (snd (addRepository w args)))
        = (map_of (loadRepoData w))(arg_key args \<mapsto> newRepo args)"
    if "getProperty (map_of (loadRepoData w)) (arg_key args) = Missing"
    using map_of_snoc_absent [OF none [OF that]] by (simp add: absent [OF that] loadRepoData_def)
  have held: "getProperty (map_of (loadRepoData (snd (addRepository w args)))) (arg_key args)
      \<noteq> Missing"
  proof (cases "getProperty (map_of (loadRepoData w)) (arg_key args) = Missing")
    case True
    then show ?thesis using after by (simp add: getProperty_def)
  next
    case False
    then show ?thesis using present [of w args] by simp
  qed
  have again: "addRepository (snd (addRepository w args)) args' =
        (alreadyExistsText (arg_key args), snd (addRepository w args))"
    if "arg_key args' = arg_key args"
    using present [of "snd (addRepository w args)" args'] held that by simp
  from present [of w args] absent after again show ?thesis by blast
qed

text \<open>Scenario A: the key \<open>zod\<close> added to an empty registry, then added again.\<close>

lemma addRepository_scenario:
  "getProperty (map_of (loadRepoData (sampleWorld twoLevelRemote))) (arg_key zodArgs) = Missing \<and>
   loadRepoData (snd (addRepository (sampleWorld twoLevelRemote) zodArgs))
     = [(''zod'', newRepo zodArgs)] \<and>
   written (snd (addRepository (sampleWorld twoLevelRemote) zodArgs))
     = [[(''zod'', newRepo zodArgs)]] \<and>
   addRepository (snd (addRepository (sampleWorld twoLevelRemote) zodArgs)) zodArgs
     = (alreadyExistsText ''zod'', snd (addRepository (sampleWorld twoLevelRemote) zodArgs)) \<and>
   str_includes (alreadyExistsText ''zod'') ''already exists''"
proof -
  let ?w = "sampleWorld twoLevelRemote"
  have e: "getProperty (map_of (loadRepoData ?w)) (arg_key zodArgs) = Missing"
    by (simp add: loadRepoData_def sampleWorld_def getProperty_def zodArgs_def
        objectPrototypeKeys_def)
  have k: "arg_key zodArgs = ''zod''" by (simp add: zodArgs_def)
  have l: "loadRepoData ?w = []" "written ?w = []"
    by (simp_all add: loadRepoData_def sampleWorld_def)
  have t: "str_includes (alreadyExistsText ''zod'') ''already exists''" by code_simp
  from addRepository_own_or_missing [of ?w zodArgs zodArgs] e
  have a: "addRepository ?w zodArgs =
        (addedText zodArgs,
         ?w\<lparr>repodata_json := Some (loadRepoData ?w @ [(arg_key zodArgs, newRepo zodArgs)]),
           written := written ?w @ [loadRepoData ?w @ [(arg_key zodArgs, newRepo zodArgs)]]\<rparr>)"
    and b: "addRepository (snd (addRepository ?w zodArgs)) zodArgs =
        (alreadyExistsText (arg_key zodArgs), snd (addRepository ?w zodArgs))"
    by blast+
  from a l k have "loadRepoData (snd (addRepository ?w zodArgs)) = [(''zod'', newRepo zodArgs)]"
    "written (snd (addRepository ?w zodArgs)) = [[(''zod'', newRepo zodArgs)]]"
    by (simp_all add: loadRepoData_def)
  with e b k t show ?thesis by simp
qed

text \<open>
  Claim C1 at the key \<open>constructor\<close> and the empty registry. The key is absent from the
  registry, and the handler answers that it already exists: the test \<open>currentRepoData[key]\<close>
  finds the member that every object inherits. Nothing is written, and the registry still
  lacks the key afterwards.
\<close>

theorem addRepository_inherited_key:
  "map_of (loadRepoData (sampleWorld twoLevelRemote)) (arg_key constructorArgs) = None \<and>
   arg_key constructorArgs = ''constructor'' \<and>
   addRepository (sampleWorld twoLevelRemote) constructorArgs
     = (alreadyExistsText ''constructor'', sampleWorld twoLevelRemote) \<and>
   written (snd (addRepository (sampleWorld twoLevelRemote) constructorArgs)) = [] \<and>
   map_of (loadRepoData (snd (addRepository (sampleWorld twoLevelRemote) constructorArgs)))
     ''constructor'' = None"
proof -
  let ?w = "sampleWorld twoLevelRemote"
  have k: "arg_key constructorArgs = ''constructor''"
    by (simp add: constructorArgs_def)
  have l: "loadRepoData ?w = []" "written ?w = []"
    by (simp_all add: loadRepoData_def sampleWorld_def)
  have g: "getProperty (map_of (loadRepoData ?w)) (arg_key constructorArgs) = Inherited"
    unfolding l k by (simp add: getProperty_def objectPrototypeKeys_def)
  have a: "addRepository ?w constructorArgs = (alreadyExistsText ''constructor'', ?w)"
    using g k by (simp add: addRepository_def Let_def)
  show ?thesis using a k l by simp
qed


section \<open>The rate-limit error of the gateway\<close>

text \<open>
  Claim C4 at a 403 response that carries no rate-limit header: the reset time reads
  \<open>unknown\<close>, the remaining quota reads \<open>null\<close>. With the headers of scenario C the payload of
  \<open>browse-repo\<close> names the rate limit, the quota 0 and the reset time.
\<close>

theorem fetchGitHubContent_forbidden_without_headers:
  "fetchGitHubContent (sampleWorld forbiddenRemote) ''o/r'' [] ''main'' =
     Inl (''Failed to fetch from GitHub: GitHub API rate limit exceeded. Remaining: null. ''
          @ ''Resets at: unknown. ''
          @ ''Consider adding a GitHub API key to config.json for higher rate limits'') \<and>
   browseRepo (registeredWorld forbiddenRemote) ''lib'' None =
     ''Error browsing repository: Failed to fetch from GitHub: ''
       @ ''GitHub API rate limit exceeded. Remaining: null. Resets at: unknown. ''
       @ ''Consider adding a GitHub API key to config.json for higher rate limits'' \<and>
   browseRepo (registeredWorld rateLimitedRemote) ''lib'' None =
     ''Error browsing repository: Failed to fetch from GitHub: ''
       @ ''GitHub API rate limit exceeded. Remaining: 0. Resets at: 10:13:20 PM. ''
       @ ''Consider adding a GitHub API key to config.json for higher rate limits'' \<and>
   str_includes (browseRepo (registeredWorld rateLimitedRemote) ''lib'' None) ''rate limit''"
  by code_simp

section \<open>The analysis of a repository\<close>




lemma fileTypeCounts_suggestPaths [simp]:
  "fileTypeCounts (suggestPaths a item itemPath) = fileTypeCounts a"
  by (simp add: suggestPaths_def Let_def)


lemma filesWithExtension_Nil [simp]: "filesWithExtension ext [] = 0"
  by (simp add: filesWithExtension_def)




lemma suggested_examplePaths_countFile [simp]:
  "suggested_examplePaths (countFile a e) = suggested_examplePaths a"
  by (simp add: countFile_def)








section \<open>Anchors and the keys of the sections\<close>

lemma hyphenate_chars:
  "c \<in> set (hyphenate s) \<Longrightarrow> c = CHR ''-'' \<or> (c \<in> set s \<and> \<not> isWhitespace c)"
proof (induction s arbitrary: c rule: hyphenate.induct)
  case 1
  then show ?case by simp
next
  case (2 x xs)
  show ?case
  proof (cases "isWhitespace x")
    case True
    then have "c = CHR ''-'' \<or> c \<in> set (hyphenate (dropWhile isWhitespace xs))"
      using "2.prems" by simp
    then show ?thesis
      using "2.IH"(1) [OF True] set_dropWhileD [of c isWhitespace xs] by auto
  next
    case False
    then have "c = x \<or> c \<in> set (hyphenate xs)" using "2.prems" by simp
    then show ?thesis using "2.IH"(2) [OF False] False by auto
  qed
qed

lemma makeAnchor_chars:
  assumes "c \<in> set (makeAnchor t)"
  shows "\<not> isWhitespace c" and "c \<noteq> CHR ''#''" and "lowerChar c = c"
proof -
  have d: "c = CHR ''-'' \<or> (isAnchorChar c \<and> \<not> isWhitespace c)"
    using hyphenate_chars [OF assms [unfolded makeAnchor_def]] by auto
  have m: "\<not> isWhitespace (CHR ''-'')" "lowerChar (CHR ''-'') = CHR ''-''"
    by (simp_all add: isWhitespace_def lowerChar_def)
  show "\<not> isWhitespace c" using d m by auto
  show "c \<noteq> CHR ''#''" using d by (auto simp: isAnchorChar_def isWhitespace_def Let_def)
  show "lowerChar c = c"
    using d m by (auto simp: isAnchorChar_def lowerChar_def Let_def)
qed

lemma toLowerCase_makeAnchor: "toLowerCase (makeAnchor t) = makeAnchor t"
  unfolding toLowerCase_def by (rule map_idI) (rule makeAnchor_chars(3))

lemma whitespace_kept_by_toLowerCase:
  assumes "c \<in> set t" "isWhitespace c"
  shows "c \<in> set (toLowerCase t)"
proof -
  have "lowerChar c = c" using assms(2) by (auto simp: isWhitespace_def lowerChar_def Let_def)
  then show ?thesis using assms(1) unfolding toLowerCase_def by force
qed

lemma split_on_absent: "c \<notin> set s \<Longrightarrow> split_on c s = [s]"
  by (induction s) auto

lemma split_on_first:
  "c \<notin> set s \<Longrightarrow> split_on c (s @ c # t) = s # split_on c t"
  by (induction s) auto

lemma findSectionHeaders_member:
  assumes "h \<in> set (findSectionHeaders content)"
  shows "\<exists>l hashes text. l \<in> set (split_on newline content) \<and>
      headerMatch l = Some (hashes, text) \<and> title h = trim text \<and>
      anchor h = makeAnchor (trim text)"
  using assms
  by (auto simp: findSectionHeaders_def List.map_filter_def split: option.splits)


text \<open>
  Of the members that every object inherits, two have a name without an upper-case letter.
\<close>

lemma lower_inherited:
  assumes "toLowerCase k = k"
  shows "k \<in> set objectPrototypeKeys \<longleftrightarrow> k = ''constructor'' \<or> k = ''__proto__''"
proof -
  have "toLowerCase ''__defineGetter__'' \<noteq> ''__defineGetter__''"
    "toLowerCase ''__defineSetter__'' \<noteq> ''__defineSetter__''"
    "toLowerCase ''hasOwnProperty'' \<noteq> ''hasOwnProperty''"
    "toLowerCase ''__lookupGetter__'' \<noteq> ''__lookupGetter__''"
    "toLowerCase ''__lookupSetter__'' \<noteq> ''__lookupSetter__''"
    "toLowerCase ''isPrototypeOf'' \<noteq> ''isPrototypeOf''"
    "toLowerCase ''propertyIsEnumerable'' \<noteq> ''propertyIsEnumerable''"
    "toLowerCase ''toString'' \<noteq> ''toString''"
    "toLowerCase ''valueOf'' \<noteq> ''valueOf''"
    "toLowerCase ''toLocaleString'' \<noteq> ''toLocaleString''"
    by code_simp+
  then show ?thesis using assms unfolding objectPrototypeKeys_def by auto
qed

lemma getDoc_section_missing:
  assumes content: "getDocumentationContent w library filePath = Inr content"
    and path: "CHR ''#'' \<notin> set filePath"
    and a: "a \<noteq> []" "CHR ''#'' \<notin> set a" "toLowerCase a = a"
    and none: "getProperty (extractMarkdownSections content) a = Missing"
  shows "getDoc w library (filePath @ ''#'' @ a) = sectionNotFound library filePath a content"
proof -
  have inc: "str_includes (filePath @ ''#'' @ a) ''#''"
    unfolding str_includes_iff by blast
  have pieces: "split_on (CHR ''#'') (filePath @ ''#'' @ a) = [filePath, a]"
    using split_on_first [OF path, of a] split_on_absent [OF a(2)] by simp
  show ?thesis
    unfolding getDoc_def Let_def using inc pieces content a none by simp
qed

lemma heading_line_nonempty: "headingKey l = Some k \<Longrightarrow> l \<noteq> []"
  by (auto simp: headingKey_def headerMatch_def)

lemma join_nonempty: "x \<noteq> [] \<Longrightarrow> join sep (x # xs) \<noteq> []"
  by (cases xs) auto

lemma getDoc_section_found:
  assumes content: "getDocumentationContent w library filePath = Inr content"
    and path: "CHR ''#'' \<notin> set filePath"
    and a: "a \<noteq> []" "CHR ''#'' \<notin> set a" "toLowerCase a = a"
    and own: "getProperty (extractMarkdownSections content) a = Own sectionText"
    and ne: "sectionText \<noteq> []"
  shows "getDoc w library (filePath @ ''#'' @ a)
     = ''# '' @ library @ ''/'' @ filePath @ ''#'' @ a @ [newline, newline] @ sectionText"
proof -
  have inc: "str_includes (filePath @ ''#'' @ a) ''#''"
    unfolding str_includes_iff by blast
  have pieces: "split_on (CHR ''#'') (filePath @ ''#'' @ a) = [filePath, a]"
    using split_on_first [OF path, of a] split_on_absent [OF a(2)] by simp
  show ?thesis
    unfolding getDoc_def Let_def using inc pieces content a own ne by simp
qed

text \<open>
  Claim C3, as amended. Take any heading that \<open>findSectionHeaders\<close> reports and whose anchor
  is neither \<open>constructor\<close> nor \<open>__proto__\<close>. If its title has white space in it, its anchor
  differs from its lower-cased title. If its anchor is not empty, the lookup of the anchor
  in the section mapping finds nothing exactly when no heading line of the content has the
  anchor as lower-cased title. When no heading line has, \<open>get-doc\<close> called with the file
  path, \<open>#\<close> and the anchor answers with the list of the available sections. When some
  heading line has, \<open>get-doc\<close> answers with the title line of the reply and the whole
  section of the last such heading line: that line and the lines after it up to the next
  heading, joined by newlines.
\<close>

theorem getDoc_anchor_lookup:
  assumes "h \<in> set (findSectionHeaders content)"
    and "anchor h \<noteq> ''constructor''" and "anchor h \<noteq> ''__proto__''"
  shows
    "((\<exists>c\<in>set (title h). isWhitespace c) \<longrightarrow> anchor h \<noteq> toLowerCase (title h)) \<and>
     (anchor h \<noteq> [] \<longrightarrow>
        (getProperty (extractMarkdownSections content) (anchor h) = Missing \<longleftrightarrow>
         (\<forall>l\<in>set (split_on newline content). headingKey l \<noteq> Some (anchor h)))) \<and>
     (anchor h \<noteq> [] \<and>
      (\<forall>l\<in>set (split_on newline content). headingKey l \<noteq> Some (anchor h)) \<and>
      CHR ''#'' \<notin> set filePath \<and>
      getDocumentationContent w library filePath = Inr content \<longrightarrow>
        getDoc w library (filePath @ ''#'' @ anchor h)
          = sectionNotFound library filePath (anchor h) content) \<and>
     (anchor h \<noteq> [] \<and>
      (\<exists>l\<in>set (split_on newline content). headingKey l = Some (anchor h)) \<and>
      CHR ''#'' \<notin> set filePath \<and>
      getDocumentationContent w library filePath = Inr content \<longrightarrow>
        (\<exists>pre l' post.
           split_on newline content = pre @ l' # post \<and>
           headingKey l' = Some (anchor h) \<and>
           (\<forall>x\<in>set post. headingKey x \<noteq> Some (anchor h)) \<and>
           getDoc w library (filePath @ ''#'' @ anchor h)
             = ''# '' @ library @ ''/'' @ filePath @ ''#'' @ anchor h @ [newline, newline]
                 @ join [newline] (l' # takeWhile (\<lambda>x. headerMatch x = None) post)))"
proof -
  obtain l hashes ttl where l: "l \<in> set (split_on newline content)"
    and m: "headerMatch l = Some (hashes, ttl)" and t: "title h = trim ttl"
    and an: "anchor h = makeAnchor (trim ttl)"
    using findSectionHeaders_member [OF assms(1)] by blast
  have low: "toLowerCase (anchor h) = anchor h" using toLowerCase_makeAnchor an by simp
  have nohash: "CHR ''#'' \<notin> set (anchor h)"
    using makeAnchor_chars(2) [of "CHR ''#''" "trim ttl"] an by auto
  have own: "anchor h \<notin> set objectPrototypeKeys"
    using lower_inherited [OF low] assms(2,3) by simp
  have look: "getProperty (extractMarkdownSections content) (anchor h) = Missing \<longleftrightarrow>
      extractMarkdownSections content (anchor h) = None"
    using own by (simp add: getProperty_def split: option.splits)
  have c1: "anchor h \<noteq> toLowerCase (title h)" if "\<exists>c\<in>set (title h). isWhitespace c"
  proof
    assume eq: "anchor h = toLowerCase (title h)"
    from that obtain c where c: "c \<in> set (title h)" "isWhitespace c" by blast
    then have "c \<in> set (anchor h)" using whitespace_kept_by_toLowerCase eq by simp
    then show False using makeAnchor_chars(1) [of c "trim ttl"] an c(2) by simp
  qed
  have c2: "getProperty (extractMarkdownSections content) (anchor h) = Missing \<longleftrightarrow>
         (\<forall>l\<in>set (split_on newline content). headingKey l \<noteq> Some (anchor h))"
    if "anchor h \<noteq> []"
    unfolding look
    using sections_only_headings [of content "anchor h"]
      sections_of_heading [of _ content "anchor h"] that assms(3)
    by blast
  have c3: "getDoc w library (filePath @ ''#'' @ anchor h)
          = sectionNotFound library filePath (anchor h) content"
    if "anchor h \<noteq> []"
      and "\<forall>l\<in>set (split_on newline content). headingKey l \<noteq> Some (anchor h)"
      and "CHR ''#'' \<notin> set filePath"
      and "getDocumentationContent w library filePath = Inr content"
  proof (rule getDoc_section_missing)
    show "getDocumentationContent w library filePath = Inr content" by (rule that(4))
    show "CHR ''#'' \<notin> set filePath" by (rule that(3))
    show "anchor h \<noteq> []" by (rule that(1))
    show "CHR ''#'' \<notin> set (anchor h)" by (rule nohash)
    show "toLowerCase (anchor h) = anchor h" by (rule low)
    show "getProperty (extractMarkdownSections content) (anchor h) = Missing"
      using c2 [OF that(1)] that(2) by simp
  qed
  have c4: "\<exists>pre l' post.
           split_on newline content = pre @ l' # post \<and>
           headingKey l' = Some (anchor h) \<and>
           (\<forall>x\<in>set post. headingKey x \<noteq> Some (anchor h)) \<and>
           getDoc w library (filePath @ ''#'' @ anchor h)
             = ''# '' @ library @ ''/'' @ filePath @ ''#'' @ anchor h @ [newline, newline]
                 @ join [newline] (l' # takeWhile (\<lambda>x. headerMatch x = None) post)"
    if ne: "anchor h \<noteq> []"
      and ex: "\<exists>l\<in>set (split_on newline content). headingKey l = Some (anchor h)"
      and path: "CHR ''#'' \<notin> set filePath"
      and doc: "getDocumentationContent w library filePath = Inr content"
  proof -
    from ex obtain x where x: "x \<in> set (split_on newline content)"
      "headingKey x = Some (anchor h)" by blast
    obtain v where v: "extractMarkdownSections content (anchor h) = Some v"
      using sections_of_heading [OF x ne assms(3)] by auto
    from sections_stored [OF v] obtain pre l' post
      where dec: "split_on newline content = pre @ l' # post"
        and l': "headingKey l' = Some (anchor h)"
        and post: "\<forall>x\<in>set post. headingKey x \<noteq> Some (anchor h)"
        and val: "v = join [newline] (l' # takeWhile (\<lambda>x. headerMatch x = None) post)"
      by blast
    have vne: "v \<noteq> []"
      unfolding val using heading_line_nonempty [OF l'] by (rule join_nonempty)
    have g: "getProperty (extractMarkdownSections content) (anchor h) = Own v"
      using v by (simp add: getProperty_def)
    have "getDoc w library (filePath @ ''#'' @ anchor h)
        = ''# '' @ library @ ''/'' @ filePath @ ''#'' @ anchor h @ [newline, newline] @ v"
      using doc path ne nohash low g vne by (rule getDoc_section_found)
    with dec l' post val show ?thesis by blast
  qed
  from c1 c2 c3 c4 show ?thesis by blast
qed

text \<open>
  The theorem on a document whose only heading is \<open>Foo Bar\<close>, and on a document where a
  second heading, \<open>foo-bar\<close>, has two lines under it.
\<close>

theorem getDoc_anchor_lookup_witness:
  "\<lparr>level = 1, title = ''Foo Bar'', anchor = ''foo-bar''\<rparr> \<in> set (findSectionHeaders oneHeading) \<and>
   ''foo-bar'' \<noteq> ''constructor'' \<and> ''foo-bar'' \<noteq> ''__proto__'' \<and>
   ''foo-bar'' \<noteq> toLowerCase ''Foo Bar'' \<and>
   getProperty (extractMarkdownSections oneHeading) ''foo-bar'' = Missing \<and>
   getProperty (extractMarkdownSections oneHeading) ''foo bar''
     = Own (''# Foo Bar'' @ [newline] @ ''text'') \<and>
   getDocumentationContent (docsWorld oneHeading) ''lib'' ''f.md'' = Inr oneHeading \<and>
   getDoc (docsWorld oneHeading) ''lib'' ''f.md#foo-bar''
     = sectionNotFound ''lib'' ''f.md'' ''foo-bar'' oneHeading \<and>
   \<lparr>level = 1, title = ''Foo Bar'', anchor = ''foo-bar''\<rparr>
     \<in> set (findSectionHeaders twoHeadingsBody) \<and>
   ''## foo-bar'' \<in> set (split_on newline twoHeadingsBody) \<and>
   headingKey ''## foo-bar'' = Some ''foo-bar'' \<and>
   getDocumentationContent (docsWorld twoHeadingsBody) ''lib'' ''f.md'' = Inr twoHeadingsBody \<and>
   getDoc (docsWorld twoHeadingsBody) ''lib'' ''f.md#foo-bar''
     = ''# lib/f.md#foo-bar'' @ [newline, newline] @ ''## foo-bar'' @ [newline] @ ''second''
         @ [newline] @ ''third'' \<and>
   (\<exists>pre l' post.
      split_on newline twoHeadingsBody = pre @ l' # post \<and>
      headingKey l' = Some ''foo-bar'' \<and>
      getDoc (docsWorld twoHeadingsBody) ''lib'' ''f.md#foo-bar''
        = ''# lib/f.md#foo-bar'' @ [newline, newline]
            @ join [newline] (l' # takeWhile (\<lambda>x. headerMatch x = None) post))"
proof -
  let ?h = "\<lparr>level = 1, title = ''Foo Bar'', anchor = ''foo-bar''\<rparr>"
  have h: "?h \<in> set (findSectionHeaders oneHeading)" by code_simp
  have n1: "anchor ?h \<noteq> ''constructor''" and n2: "anchor ?h \<noteq> ''__proto__''" by simp_all
  have ws: "\<exists>c\<in>set (title ?h). isWhitespace c" by code_simp
  have nokey: "\<forall>l\<in>set (split_on newline oneHeading). headingKey l \<noteq> Some (anchor ?h)"
    by code_simp
  have own: "getProperty (extractMarkdownSections oneHeading) ''foo bar''
      = Own (''# Foo Bar'' @ [newline] @ ''text'')" by code_simp
  have doc: "getDocumentationContent (docsWorld oneHeading) ''lib'' ''f.md'' = Inr oneHeading"
    by code_simp
  have path: "CHR ''#'' \<notin> set ''f.md''" by simp
  note t = getDoc_anchor_lookup [OF h n1 n2, of "''f.md''" "docsWorld oneHeading" "''lib''"]
  from t ws have a1: "anchor ?h \<noteq> toLowerCase (title ?h)" by blast
  have ne: "anchor ?h \<noteq> []" by simp
  from t ne nokey
  have a2: "getProperty (extractMarkdownSections oneHeading) (anchor ?h) = Missing" by blast
  from t ne nokey path doc
  have a3: "getDoc (docsWorld oneHeading) ''lib'' (''f.md'' @ ''#'' @ anchor ?h)
      = sectionNotFound ''lib'' ''f.md'' (anchor ?h) oneHeading"
    by blast
  from a1 a2 a3 have first: "''foo-bar'' \<noteq> toLowerCase ''Foo Bar''"
    "getProperty (extractMarkdownSections oneHeading) ''foo-bar'' = Missing"
    "getDoc (docsWorld oneHeading) ''lib'' ''f.md#foo-bar''
      = sectionNotFound ''lib'' ''f.md'' ''foo-bar'' oneHeading"
    by simp_all
  have h2: "?h \<in> set (findSectionHeaders twoHeadingsBody)" by code_simp
  have mem: "''## foo-bar'' \<in> set (split_on newline twoHeadingsBody)" by code_simp
  have key: "headingKey ''## foo-bar'' = Some ''foo-bar''" by code_simp
  have doc2: "getDocumentationContent (docsWorld twoHeadingsBody) ''lib'' ''f.md''
      = Inr twoHeadingsBody" by code_simp
  have out: "getDoc (docsWorld twoHeadingsBody) ''lib'' ''f.md#foo-bar''
     = ''# lib/f.md#foo-bar'' @ [newline, newline] @ ''## foo-bar'' @ [newline] @ ''second''
         @ [newline] @ ''third''" by code_simp
  have ex: "\<exists>l\<in>set (split_on newline twoHeadingsBody). headingKey l = Some (anchor ?h)"
    using mem key by auto
  note u = getDoc_anchor_lookup [OF h2 n1 n2, of "''f.md''" "docsWorld twoHeadingsBody" "''lib''"]
  from u ne ex path doc2 have "\<exists>pre l' post.
      split_on newline twoHeadingsBody = pre @ l' # post \<and>
      headingKey l' = Some (anchor ?h) \<and>
      (\<forall>x\<in>set post. headingKey x \<noteq> Some (anchor ?h)) \<and>
      getDoc (docsWorld twoHeadingsBody) ''lib'' (''f.md'' @ ''#'' @ anchor ?h)
        = ''# '' @ ''lib'' @ ''/'' @ ''f.md'' @ ''#'' @ anchor ?h @ [newline, newline]
            @ join [newline] (l' # takeWhile (\<lambda>x. headerMatch x = None) post)"
    by blast
  then have second: "\<exists>pre l' post.
      split_on newline twoHeadingsBody = pre @ l' # post \<and>
      headingKey l' = Some ''foo-bar'' \<and>
      getDoc (docsWorld twoHeadingsBody) ''lib'' ''f.md#foo-bar''
        = ''# lib/f.md#foo-bar'' @ [newline, newline]
            @ join [newline] (l' # takeWhile (\<lambda>x. headerMatch x = None) post)"
    by simp blast
  from h first own doc h2 mem key doc2 out second show ?thesis by simp
qed

text \<open>
  The claim as stated fails when another heading has the anchor as its title: the anchor
  \<open>foo-bar\<close> of the heading \<open>Foo Bar\<close> is then a key, and \<open>get-doc\<close> returns a section body.
\<close>

theorem getDoc_anchor_of_another_heading:
  "findSectionHeaders twoHeadings
     = [\<lparr>level = 1, title = ''Foo Bar'', anchor = ''foo-bar''\<rparr>,
        \<lparr>level = 1, title = ''foo-bar'', anchor = ''foo-bar''\<rparr>] \<and>
   toLowerCase ''Foo Bar'' \<noteq> ''foo-bar'' \<and>
   getProperty (extractMarkdownSections twoHeadings) ''foo-bar'' = Own ''# foo-bar'' \<and>
   getDoc (docsWorld twoHeadings) ''lib'' ''f.md#foo-bar''
     = ''# lib/f.md#foo-bar'' @ [newline, newline] @ ''# foo-bar'' \<and>
   getDoc (docsWorld twoHeadings) ''lib'' ''f.md#foo-bar''
     \<noteq> sectionNotFound ''lib'' ''f.md'' ''foo-bar'' twoHeadings"
  by code_simp

text \<open>
  The anchor \<open>constructor\<close> of the heading \<open>Constructor()\<close> is no key of the section mapping
  either, and the lookup finds the inherited member: \<open>get-doc\<close> prints it as if it were the
  section.
\<close>

lemma getDoc_constructor_heading:
  "findSectionHeaders constructorHeading
     = [\<lparr>level = 2, title = ''Constructor()'', anchor = ''constructor''\<rparr>] \<and>
   toLowerCase ''Constructor()'' \<noteq> ''constructor'' \<and>
   extractMarkdownSections constructorHeading ''constructor'' = None \<and>
   getDoc (docsWorld constructorHeading) ''lib'' ''f.md#constructor''
     = ''# lib/f.md#constructor'' @ [newline, newline]
         @ ''function Object() { [native code] }''"
  by code_simp

end
